theory Spec2Isabelle
  imports Main "HOL-Library.Sublist"
begin

section \<open>Data model\<close>

text \<open>
  The Python sources (\<^verbatim>\<open>answer.py\<close> and \<^verbatim>\<open>matrix_benchmark.py\<close>) represent a matrix as
  a list of rows, \<^verbatim>\<open>Matrix = List[List[int]]\<close>.  Nothing in the type forces the rows to
  have equal length, so the model keeps plain nested lists of unbounded integers.
  Every exception the code can raise is a value of \<open>error\<close>; a computation returns
  \<open>Inl e\<close> when the Python raises \<open>e\<close> and \<open>Inr v\<close> when it returns \<open>v\<close>.
\<close>

type_synonym matrix = "int list list"

datatype error = IndexError | AssertionError | ValueError | RecursionError | TypeError

text \<open>Sequencing of computations that may raise: the first exception wins.\<close>

definition bnd :: "error + 'a \<Rightarrow> ('a \<Rightarrow> error + 'b) \<Rightarrow> error + 'b" where
  "bnd r f = (case r of Inl e \<Rightarrow> Inl e | Inr x \<Rightarrow> f x)"

text \<open>\<^verbatim>\<open>xs[i]\<close> for an index \<open>i \<ge> 0\<close>: Python raises \<^verbatim>\<open>IndexError\<close> out of range.\<close>

definition idx :: "'a list \<Rightarrow> nat \<Rightarrow> error + 'a" where
  "idx xs i = (if i < length xs then Inr (xs ! i) else Inl IndexError)"

text \<open>A list comprehension whose element expression may raise.\<close>

primrec mapM :: "('a \<Rightarrow> error + 'b) \<Rightarrow> 'a list \<Rightarrow> error + 'b list" where
  "mapM f [] = Inr []"
| "mapM f (x # xs) = bnd (f x) (\<lambda>y. bnd (mapM f xs) (\<lambda>ys. Inr (y # ys)))"

text \<open>A \<^verbatim>\<open>for\<close> loop that updates a local variable and may raise in its body.\<close>

primrec foldM :: "('s \<Rightarrow> 'a \<Rightarrow> error + 's) \<Rightarrow> 'a list \<Rightarrow> 's \<Rightarrow> error + 's" where
  "foldM f [] s = Inr s"
| "foldM f (x # xs) s = bnd (f s x) (foldM f xs)"

section \<open>Dense matrix operations\<close>

text \<open>
  \<^verbatim>\<open>
  def matmul_classic(A, B):
      n = len(A)
      C = [[0] * n for _ in range(n)]
      for i in range(n):
          rowA = A[i]
          Ci = C[i]
          for k in range(n):
              aik = rowA[k]
              Bk = B[k]
              for j in range(n):
                  Ci[j] += aik * Bk[j]
      return C
  \<close>
  The function is the same in both source files.  The accumulator \<open>C\<close> is local, so
  the three loops are folds over the accumulator row and the accumulator matrix.
\<close>

definition step_j :: "int \<Rightarrow> int list \<Rightarrow> int list \<Rightarrow> nat \<Rightarrow> error + int list" where
  "step_j aik Bk Ci j =
     bnd (idx Ci j) (\<lambda>c. bnd (idx Bk j) (\<lambda>b. Inr (Ci[j := c + aik * b])))"

definition step_k :: "int list \<Rightarrow> matrix \<Rightarrow> nat \<Rightarrow> int list \<Rightarrow> nat \<Rightarrow> error + int list" where
  "step_k rowA B n Ci k =
     bnd (idx rowA k) (\<lambda>aik. bnd (idx B k) (\<lambda>Bk. foldM (step_j aik Bk) [0..<n] Ci))"

definition step_i :: "matrix \<Rightarrow> matrix \<Rightarrow> nat \<Rightarrow> matrix \<Rightarrow> nat \<Rightarrow> error + matrix" where
  "step_i A B n C i =
     bnd (idx A i) (\<lambda>rowA. bnd (idx C i) (\<lambda>Ci.
       bnd (foldM (step_k rowA B n) [0..<n] Ci) (\<lambda>Ci'. Inr (C[i := Ci']))))"

definition matmul_classic :: "matrix \<Rightarrow> matrix \<Rightarrow> error + matrix" where
  "matmul_classic A B =
     (let n = length A;
          C = replicate n (replicate n 0)
      in foldM (step_i A B n) [0..<n] C)"

text \<open>
  \<^verbatim>\<open>
  def add_matrix(A, B):
      n = len(A)
      return [[A[i][j] + B[i][j] for j in range(n)] for i in range(n)]
  \<close>
  and \<^verbatim>\<open>sub_matrix\<close> alike with \<open>-\<close>.
\<close>

definition elementwise :: "(int \<Rightarrow> int \<Rightarrow> int) \<Rightarrow> matrix \<Rightarrow> matrix \<Rightarrow> error + matrix" where
  "elementwise f A B =
     (let n = length A
      in mapM (\<lambda>i. mapM (\<lambda>j.
           bnd (idx A i) (\<lambda>ra. bnd (idx ra j) (\<lambda>a.
           bnd (idx B i) (\<lambda>rb. bnd (idx rb j) (\<lambda>b. Inr (f a b)))))) [0..<n]) [0..<n])"

definition add_matrix :: "matrix \<Rightarrow> matrix \<Rightarrow> error + matrix" where
  "add_matrix A B = elementwise (\<lambda>a b. a + b) A B"

definition sub_matrix :: "matrix \<Rightarrow> matrix \<Rightarrow> error + matrix" where
  "sub_matrix A B = elementwise (\<lambda>a b. a - b) A B"

section \<open>Block splitting and joining\<close>

text \<open>
  The quadrants are slices, which never raise:
  \<^verbatim>\<open>a11 = [row[:m] for row in A[:m]]\<close>, \<^verbatim>\<open>a12 = [row[m:] for row in A[:m]]\<close>,
  \<^verbatim>\<open>a21 = [row[:m] for row in A[m:]]\<close>, \<^verbatim>\<open>a22 = [row[m:] for row in A[m:]]\<close>.
\<close>

definition q11 :: "nat \<Rightarrow> matrix \<Rightarrow> matrix" where
  "q11 m A = map (take m) (take m A)"

definition q12 :: "nat \<Rightarrow> matrix \<Rightarrow> matrix" where
  "q12 m A = map (drop m) (take m A)"

definition q21 :: "nat \<Rightarrow> matrix \<Rightarrow> matrix" where
  "q21 m A = map (take m) (drop m A)"

definition q22 :: "nat \<Rightarrow> matrix \<Rightarrow> matrix" where
  "q22 m A = map (drop m) (drop m A)"

text \<open>
  \<^verbatim>\<open>C = [c11[i] + c12[i] for i in range(m)] + [c21[i] + c22[i] for i in range(m)]\<close>
\<close>

definition join_rows :: "nat \<Rightarrow> matrix \<Rightarrow> matrix \<Rightarrow> error + matrix" where
  "join_rows m L R =
     mapM (\<lambda>i. bnd (idx L i) (\<lambda>l. bnd (idx R i) (\<lambda>r. Inr (l @ r)))) [0..<m]"

definition join :: "nat \<Rightarrow> matrix \<Rightarrow> matrix \<Rightarrow> matrix \<Rightarrow> matrix \<Rightarrow> error + matrix" where
  "join m c11 c12 c21 c22 =
     bnd (join_rows m c11 c12) (\<lambda>top. bnd (join_rows m c21 c22) (\<lambda>bot. Inr (top @ bot)))"

section \<open>Basic facts about the error monad and the elementwise operations\<close>

lemma bnd_Inr [simp]: "bnd (Inr x) f = f x"
  by (simp add: bnd_def)

lemma bnd_Inl [simp]: "bnd (Inl e) f = Inl e"
  by (simp add: bnd_def)

lemma bnd_cong [fundef_cong]:
  "r = r' \<Longrightarrow> (\<And>x. r' = Inr x \<Longrightarrow> f x = f' x) \<Longrightarrow> bnd r f = bnd r' f'"
  by (cases r') (simp_all add: bnd_def)

lemma bnd_eq_Inr: "bnd r f = Inr y \<longleftrightarrow> (\<exists>x. r = Inr x \<and> f x = Inr y)"
  by (cases r) simp_all

lemma bnd_eq_Inl: "bnd r f = Inl e \<longleftrightarrow> r = Inl e \<or> (\<exists>x. r = Inr x \<and> f x = Inl e)"
  by (cases r) simp_all

lemma idx_eq_Inr: "idx xs i = Inr x \<longleftrightarrow> i < length xs \<and> x = xs ! i"
  by (auto simp add: idx_def)

lemma idx_eq_Inl: "idx xs i = Inl e \<longleftrightarrow> \<not> i < length xs \<and> e = IndexError"
  by (auto simp add: idx_def)

lemma idx_in_range [simp]: "i < length xs \<Longrightarrow> idx xs i = Inr (xs ! i)"
  by (simp add: idx_def)

lemma mapM_length: "mapM f xs = Inr ys \<Longrightarrow> length ys = length xs"
  by (induction xs arbitrary: ys) (auto simp add: bnd_eq_Inr)

lemma mapM_Inr_map: "(\<And>x. x \<in> set xs \<Longrightarrow> f x = Inr (g x)) \<Longrightarrow> mapM f xs = Inr (map g xs)"
  by (induction xs) simp_all

lemma mapM_Inr_all: "mapM f xs = Inr ys \<Longrightarrow> x \<in> set xs \<Longrightarrow> \<exists>y. f x = Inr y"
  by (induction xs arbitrary: ys) (auto simp add: bnd_eq_Inr)

lemma mapM_Inl: "mapM f xs = Inl e \<Longrightarrow> \<exists>x \<in> set xs. f x = Inl e"
  by (induction xs) (auto simp add: bnd_eq_Inl)

lemma mapM_append:
  "mapM f (xs @ ys) = bnd (mapM f xs) (\<lambda>us. bnd (mapM f ys) (\<lambda>vs. Inr (us @ vs)))"
proof (induction xs)
  case Nil
  show ?case by (cases "mapM f ys") simp_all
next
  case (Cons x xs)
  show ?case
  proof (cases "f x")
    case (Inl e)
    then show ?thesis by simp
  next
    case (Inr y)
    then show ?thesis
      using Cons by (cases "mapM f xs"; cases "mapM f ys") simp_all
  qed
qed

lemma foldM_append: "foldM f (xs @ ys) s = bnd (foldM f xs s) (foldM f ys)"
  by (induction xs arbitrary: s) (simp_all add: bnd_def split: sum.splits)

lemma foldM_Inr_all:
  "foldM f xs s = Inr t \<Longrightarrow> x \<in> set xs \<Longrightarrow> \<exists>u v. f u x = Inr v"
  by (induction xs arbitrary: s) (auto simp add: bnd_eq_Inr)

lemma foldM_Inl: "foldM f xs s = Inl e \<Longrightarrow> \<exists>x \<in> set xs. \<exists>u. f u x = Inl e"
  by (induction xs arbitrary: s) (auto simp add: bnd_eq_Inl)

lemma elementwise_length: "elementwise f A B = Inr C \<Longrightarrow> length C = length A"
  by (auto simp add: elementwise_def Let_def dest: mapM_length)

lemma add_matrix_length: "add_matrix A B = Inr C \<Longrightarrow> length C = length A"
  by (simp add: add_matrix_def elementwise_length)

lemma sub_matrix_length: "sub_matrix A B = Inr C \<Longrightarrow> length C = length A"
  by (simp add: sub_matrix_def elementwise_length)


lemma elementwise_rows:
  assumes "elementwise f X Y = Inr Z" and "r \<in> set X"
  shows "length X \<le> length r"
proof (cases "length X")
  case 0
  then show ?thesis by simp
next
  case (Suc k)
  from assms(2) obtain i where i: "i < length X" "X ! i = r"
    by (auto simp add: in_set_conv_nth)
  from assms(1) have "mapM (\<lambda>i. mapM (\<lambda>j.
           bnd (idx X i) (\<lambda>ra. bnd (idx ra j) (\<lambda>a.
           bnd (idx Y i) (\<lambda>rb. bnd (idx rb j) (\<lambda>b. Inr (f a b)))))) [0..<length X])
             [0..<length X] = Inr Z"
    by (simp add: elementwise_def Let_def)
  from mapM_Inr_all[OF this, of i] i obtain row where
    row: "mapM (\<lambda>j.
           bnd (idx X i) (\<lambda>ra. bnd (idx ra j) (\<lambda>a.
           bnd (idx Y i) (\<lambda>rb. bnd (idx rb j) (\<lambda>b. Inr (f a b)))))) [0..<length X] = Inr row"
    by auto
  from mapM_Inr_all[OF row, of k] Suc obtain v where
    "bnd (idx X i) (\<lambda>ra. bnd (idx ra k) (\<lambda>a.
           bnd (idx Y i) (\<lambda>rb. bnd (idx rb k) (\<lambda>b. Inr (f a b))))) = Inr v"
    by auto
  with i have "k < length r"
    by (auto simp add: bnd_eq_Inr idx_eq_Inr)
  with Suc show ?thesis by simp
qed

lemma q_lengths [simp]:
  "length (q11 m A) = min m (length A)" "length (q12 m A) = min m (length A)"
  "length (q21 m A) = length A - m" "length (q22 m A) = length A - m"
  by (simp_all add: q11_def q12_def q21_def q22_def min_def)

text \<open>
  When the lower-left quadrant can be added to anything, its rows (of length at most
  \<open>n div 2\<close>) are at least as long as it has rows (\<open>n - n div 2\<close>): the order was even.
\<close>

lemma lower_half_lt:
  assumes "elementwise f (q21 (length A div 2) A) Y = Inr Z" and "length A \<noteq> 0"
  shows "length A - length A div 2 < length A"
proof -
  let ?m = "length A div 2"
  have "?m < length A" using assms(2) by arith
  then have "drop ?m A \<noteq> []" by simp
  then obtain r where r: "r \<in> set (drop ?m A)" by (cases "drop ?m A") auto
  then have "take ?m r \<in> set (q21 ?m A)" by (simp add: q21_def)
  from elementwise_rows[OF assms(1) this] have "length A - ?m \<le> ?m" by simp
  with assms(2) show ?thesis by linarith
qed

lemma lower_half_add:
  "add_matrix (q21 (length A div 2) A) Y = Inr Z \<Longrightarrow> A \<noteq> [] \<Longrightarrow>
     length A - length A div 2 < length A"
  by (rule lower_half_lt[of "\<lambda>a b. a + b" A Y Z]) (simp_all add: add_matrix_def)

section \<open>The recursive engines of \<^verbatim>\<open>matrix_benchmark.py\<close>\<close>

text \<open>
  \<^verbatim>\<open>
  def _strassen_core(A, B, cutoff):
      n = len(A)
      if n <= cutoff:
          return matmul_classic(A, B)
      m = n // 2
      a11 .. b22 = the eight quadrants
      M1 = _strassen_core(add_matrix(a11, a22), add_matrix(b11, b22), cutoff)
      M2 = _strassen_core(add_matrix(a21, a22), b11, cutoff)
      M3 = _strassen_core(a11, sub_matrix(b12, b22), cutoff)
      M4 = _strassen_core(a22, sub_matrix(b21, b11), cutoff)
      M5 = _strassen_core(add_matrix(a11, a12), b22, cutoff)
      M6 = _strassen_core(sub_matrix(a21, a11), add_matrix(b11, b12), cutoff)
      M7 = _strassen_core(sub_matrix(a12, a22), add_matrix(b21, b22), cutoff)
      c11 = sub_matrix(add_matrix(add_matrix(M1, M4), M7), M5)
      c12 = add_matrix(M3, M5)
      c21 = add_matrix(M2, M4)
      c22 = add_matrix(sub_matrix(add_matrix(M1, M3), M2), M6)
      C = [c11[i] + c12[i] for i in range(m)] + [c21[i] + c22[i] for i in range(m)]
      return C
  \<close>
  The name \<^verbatim>\<open>_strassen_core\<close> is not an Isabelle identifier; the model is called
  \<open>strassen_core_bm\<close>.  The cutoff is a Python integer and may be negative.  With a
  negative cutoff and the empty matrix the Python calls itself on the same arguments
  without end and the interpreter raises \<^verbatim>\<open>RecursionError\<close>; this is the only
  situation in which the argument does not shrink, and the model returns that error
  there.
\<close>

function strassen_core_bm :: "matrix \<Rightarrow> matrix \<Rightarrow> int \<Rightarrow> error + matrix" where
  "strassen_core_bm A B cutoff =
     (let n = length A in
      if int n \<le> cutoff then matmul_classic A B
      else if n = 0 then Inl RecursionError
      else
        let m = n div 2;
            a11 = q11 m A; a12 = q12 m A; a21 = q21 m A; a22 = q22 m A;
            b11 = q11 m B; b12 = q12 m B; b21 = q21 m B; b22 = q22 m B
        in
        bnd (add_matrix a11 a22) (\<lambda>x1. bnd (add_matrix b11 b22) (\<lambda>y1.
        bnd (strassen_core_bm x1 y1 cutoff) (\<lambda>M1.
        bnd (add_matrix a21 a22) (\<lambda>x2.
        bnd (strassen_core_bm x2 b11 cutoff) (\<lambda>M2.
        bnd (sub_matrix b12 b22) (\<lambda>y3.
        bnd (strassen_core_bm a11 y3 cutoff) (\<lambda>M3.
        bnd (sub_matrix b21 b11) (\<lambda>y4.
        bnd (strassen_core_bm a22 y4 cutoff) (\<lambda>M4.
        bnd (add_matrix a11 a12) (\<lambda>x5.
        bnd (strassen_core_bm x5 b22 cutoff) (\<lambda>M5.
        bnd (sub_matrix a21 a11) (\<lambda>x6. bnd (add_matrix b11 b12) (\<lambda>y6.
        bnd (strassen_core_bm x6 y6 cutoff) (\<lambda>M6.
        bnd (sub_matrix a12 a22) (\<lambda>x7. bnd (add_matrix b21 b22) (\<lambda>y7.
        bnd (strassen_core_bm x7 y7 cutoff) (\<lambda>M7.
        bnd (add_matrix M1 M4) (\<lambda>t1. bnd (add_matrix t1 M7) (\<lambda>t2.
        bnd (sub_matrix t2 M5) (\<lambda>c11.
        bnd (add_matrix M3 M5) (\<lambda>c12.
        bnd (add_matrix M2 M4) (\<lambda>c21.
        bnd (add_matrix M1 M3) (\<lambda>t3. bnd (sub_matrix t3 M2) (\<lambda>t4.
        bnd (add_matrix t4 M6) (\<lambda>c22.
        join m c11 c12 c21 c22))))))))))))))))))))))))))"
  by pat_completeness auto


termination strassen_core_bm
  apply (relation "measure (\<lambda>(A, B, c). length A)")
          apply (auto simp add: add_matrix_length sub_matrix_length intro: lower_half_add)
  done

text \<open>
  \<^verbatim>\<open>
  def _strassen_winograd_core(A, B, cutoff):
      n = len(A)
      if n <= cutoff:
          return matmul_classic(A, B)
      m = n // 2
      a11 .. b22 = the eight quadrants
      S1 = sub_matrix(b12, b22);  S2 = add_matrix(a11, a12)
      S3 = add_matrix(a21, a22);  S4 = sub_matrix(b21, b11)
      S5 = add_matrix(a11, a22);  S6 = add_matrix(b11, b22)
      S7 = sub_matrix(a12, a22);  S8 = add_matrix(b21, b22)
      S9 = sub_matrix(a11, a21);  S10 = add_matrix(b11, b12)
      P1 = core(a11, S1); P2 = core(S2, b22); P3 = core(S3, b11); P4 = core(a22, S4)
      P5 = core(S5, S6);  P6 = core(S7, S8);  P7 = core(S9, S10)
      C11 = add_matrix(sub_matrix(add_matrix(P5, P4), P2), P6)
      C12 = add_matrix(P1, P2)
      C21 = add_matrix(P3, P4)
      C22 = sub_matrix(sub_matrix(add_matrix(P5, P1), P3), P7)
      C = [C11[i] + C12[i] for i in range(m)] + [C21[i] + C22[i] for i in range(m)]
      return C
  \<close>
\<close>

function strassen_winograd_core :: "matrix \<Rightarrow> matrix \<Rightarrow> int \<Rightarrow> error + matrix" where
  "strassen_winograd_core A B cutoff =
     (let n = length A in
      if int n \<le> cutoff then matmul_classic A B
      else if n = 0 then Inl RecursionError
      else
        let m = n div 2;
            a11 = q11 m A; a12 = q12 m A; a21 = q21 m A; a22 = q22 m A;
            b11 = q11 m B; b12 = q12 m B; b21 = q21 m B; b22 = q22 m B
        in
        bnd (sub_matrix b12 b22) (\<lambda>S1. bnd (add_matrix a11 a12) (\<lambda>S2.
        bnd (add_matrix a21 a22) (\<lambda>S3. bnd (sub_matrix b21 b11) (\<lambda>S4.
        bnd (add_matrix a11 a22) (\<lambda>S5. bnd (add_matrix b11 b22) (\<lambda>S6.
        bnd (sub_matrix a12 a22) (\<lambda>S7. bnd (add_matrix b21 b22) (\<lambda>S8.
        bnd (sub_matrix a11 a21) (\<lambda>S9. bnd (add_matrix b11 b12) (\<lambda>S10.
        bnd (strassen_winograd_core a11 S1 cutoff) (\<lambda>P1.
        bnd (strassen_winograd_core S2 b22 cutoff) (\<lambda>P2.
        bnd (strassen_winograd_core S3 b11 cutoff) (\<lambda>P3.
        bnd (strassen_winograd_core a22 S4 cutoff) (\<lambda>P4.
        bnd (strassen_winograd_core S5 S6 cutoff) (\<lambda>P5.
        bnd (strassen_winograd_core S7 S8 cutoff) (\<lambda>P6.
        bnd (strassen_winograd_core S9 S10 cutoff) (\<lambda>P7.
        bnd (add_matrix P5 P4) (\<lambda>t1. bnd (sub_matrix t1 P2) (\<lambda>t2.
        bnd (add_matrix t2 P6) (\<lambda>C11.
        bnd (add_matrix P1 P2) (\<lambda>C12.
        bnd (add_matrix P3 P4) (\<lambda>C21.
        bnd (add_matrix P5 P1) (\<lambda>t3. bnd (sub_matrix t3 P3) (\<lambda>t4.
        bnd (sub_matrix t4 P7) (\<lambda>C22.
        join m C11 C12 C21 C22))))))))))))))))))))))))))"
  by pat_completeness auto

termination strassen_winograd_core
  apply (relation "measure (\<lambda>(A, B, c). length A)")
          apply (auto simp add: add_matrix_length sub_matrix_length intro: lower_half_add)
  done

section \<open>Padding and the entry points of \<^verbatim>\<open>matrix_benchmark.py\<close>\<close>

text \<open>
  \<^verbatim>\<open>int.bit_length()\<close> of a non-negative integer: the number of binary digits.
  The code applies it to \<open>n - 1\<close> with \<open>n \<ge> 1\<close>.
\<close>

fun bit_length :: "nat \<Rightarrow> nat" where
  "bit_length n = (if n = 0 then 0 else Suc (bit_length (n div 2)))"

declare bit_length.simps [simp del]

text \<open>
  \<^verbatim>\<open>Ap = [row + [0] * (m - n) for row in A] + [[0] * m for _ in range(m - n)]\<close>
  and the crop \<^verbatim>\<open>[row[:n] for row in Cp[:n]]\<close>.  A list repeated a negative number
  of times is empty in Python, as \<open>replicate\<close> of the truncated difference is here.
\<close>

definition pad :: "nat \<Rightarrow> nat \<Rightarrow> matrix \<Rightarrow> matrix" where
  "pad m n A = map (\<lambda>row. row @ replicate (m - n) 0) A @ replicate (m - n) (replicate m 0)"

definition crop :: "nat \<Rightarrow> matrix \<Rightarrow> matrix" where
  "crop n Cp = map (take n) (take n Cp)"

text \<open>
  \<^verbatim>\<open>
  def matmul_strassen(A, B, cutoff=CUTOFF_STRASSEN):
      n = len(A)
      if n == 0:
          return []
      assert n == len(B) == len(A[0]) == len(B[0]), "..."
      if n & (n - 1):
          m = 1 << (n - 1).bit_length()
          Ap = ...; Bp = ...
          Cp = _strassen_core(Ap, Bp, cutoff)
          return [row[:n] for row in Cp[:n]]
      else:
          return _strassen_core(A, B, cutoff)
  \<close>
  The chained comparison stops at the first inequality, so \<^verbatim>\<open>B[0]\<close> is only read
  when \<open>B\<close> has as many rows as \<open>A\<close>, which is at least one.
\<close>

definition shape_ok :: "matrix \<Rightarrow> matrix \<Rightarrow> bool" where
  "shape_ok A B \<longleftrightarrow>
     length A = length B \<and> length B = length (A ! 0) \<and> length (A ! 0) = length (B ! 0)"

definition padded :: "(matrix \<Rightarrow> matrix \<Rightarrow> int \<Rightarrow> error + matrix) \<Rightarrow>
    matrix \<Rightarrow> matrix \<Rightarrow> int \<Rightarrow> error + matrix" where
  "padded core A B cutoff =
     (let n = length A in
      if and n (n - 1) \<noteq> 0 then
        let m = push_bit (bit_length (n - 1)) 1;
            Ap = pad m n A;
            Bp = pad m n B
        in bnd (core Ap Bp cutoff) (\<lambda>Cp. Inr (crop n Cp))
      else core A B cutoff)"

definition matmul_strassen :: "matrix \<Rightarrow> matrix \<Rightarrow> int \<Rightarrow> error + matrix" where
  "matmul_strassen A B cutoff =
     (if length A = 0 then Inr []
      else if \<not> shape_ok A B then Inl AssertionError
      else padded strassen_core_bm A B cutoff)"

definition matmul_strassen_winograd :: "matrix \<Rightarrow> matrix \<Rightarrow> int \<Rightarrow> error + matrix" where
  "matmul_strassen_winograd A B cutoff =
     (if length A = 0 then Inr []
      else if \<not> shape_ok A B then Inl AssertionError
      else padded strassen_winograd_core A B cutoff)"

section \<open>The engine and entry point of \<^verbatim>\<open>answer.py\<close>\<close>

text \<open>
  \<^verbatim>\<open>
  def strassen_core(A, B, cutoff):
      n = len(A)
      if n <= cutoff:
          return matmul_classic(A, B)
      if n % 2 == 1:
          return matmul_classic(A, B)
      m = n // 2
      ... the quadrants, the seven products and the combination as in _strassen_core
  \<close>
  As above, the empty matrix with a negative cutoff recurses without end.
\<close>

function strassen_core :: "matrix \<Rightarrow> matrix \<Rightarrow> int \<Rightarrow> error + matrix" where
  "strassen_core A B cutoff =
     (let n = length A in
      if int n \<le> cutoff then matmul_classic A B
      else if n mod 2 = 1 then matmul_classic A B
      else if n = 0 then Inl RecursionError
      else
        let m = n div 2;
            a11 = q11 m A; a12 = q12 m A; a21 = q21 m A; a22 = q22 m A;
            b11 = q11 m B; b12 = q12 m B; b21 = q21 m B; b22 = q22 m B
        in
        bnd (add_matrix a11 a22) (\<lambda>x1. bnd (add_matrix b11 b22) (\<lambda>y1.
        bnd (strassen_core x1 y1 cutoff) (\<lambda>m1.
        bnd (add_matrix a21 a22) (\<lambda>x2.
        bnd (strassen_core x2 b11 cutoff) (\<lambda>m2.
        bnd (sub_matrix b12 b22) (\<lambda>y3.
        bnd (strassen_core a11 y3 cutoff) (\<lambda>m3.
        bnd (sub_matrix b21 b11) (\<lambda>y4.
        bnd (strassen_core a22 y4 cutoff) (\<lambda>m4.
        bnd (add_matrix a11 a12) (\<lambda>x5.
        bnd (strassen_core x5 b22 cutoff) (\<lambda>m5.
        bnd (sub_matrix a21 a11) (\<lambda>x6. bnd (add_matrix b11 b12) (\<lambda>y6.
        bnd (strassen_core x6 y6 cutoff) (\<lambda>m6.
        bnd (sub_matrix a12 a22) (\<lambda>x7. bnd (add_matrix b21 b22) (\<lambda>y7.
        bnd (strassen_core x7 y7 cutoff) (\<lambda>m7.
        bnd (add_matrix m1 m4) (\<lambda>t1. bnd (add_matrix t1 m7) (\<lambda>t2.
        bnd (sub_matrix t2 m5) (\<lambda>c11.
        bnd (add_matrix m3 m5) (\<lambda>c12.
        bnd (add_matrix m2 m4) (\<lambda>c21.
        bnd (add_matrix m1 m3) (\<lambda>t3. bnd (sub_matrix t3 m2) (\<lambda>t4.
        bnd (add_matrix t4 m6) (\<lambda>c22.
        join m c11 c12 c21 c22))))))))))))))))))))))))))"
  by pat_completeness auto

termination strassen_core
  apply (relation "measure (\<lambda>(A, B, c). length A)")
          apply (auto simp add: add_matrix_length sub_matrix_length intro: lower_half_add)
  done

text \<open>
  \<^verbatim>\<open>
  def matmul_strassen(A, B, cutoff=64):
      n = len(A)
      if n == 0:
          return []
      if n != len(B) or n != len(A[0]) or n != len(B[0]):
          raise ValueError("...")
      return strassen_core(A, B, cutoff)
  \<close>
  The two files define a function of this name; the one of \<^verbatim>\<open>answer.py\<close> is
  \<open>matmul_strassen_ans\<close> here.
\<close>

definition matmul_strassen_ans :: "matrix \<Rightarrow> matrix \<Rightarrow> int \<Rightarrow> error + matrix" where
  "matmul_strassen_ans A B cutoff =
     (let n = length A in
      if n = 0 then Inr []
      else if n \<noteq> length B \<or> n \<noteq> length (A ! 0) \<or> n \<noteq> length (B ! 0) then Inl ValueError
      else strassen_core A B cutoff)"


declare strassen_core_bm.simps [simp del]
declare strassen_winograd_core.simps [simp del]
declare strassen_core.simps [simp del]

section \<open>Square matrices and the standard product\<close>

definition square :: "nat \<Rightarrow> matrix \<Rightarrow> bool" where
  "square n A \<longleftrightarrow> length A = n \<and> (\<forall>r \<in> set A. length r = n)"

definition mat :: "nat \<Rightarrow> (nat \<Rightarrow> nat \<Rightarrow> int) \<Rightarrow> matrix" where
  "mat n f = map (\<lambda>i. map (\<lambda>j. f i j) [0..<n]) [0..<n]"

definition mmf :: "nat \<Rightarrow> (nat \<Rightarrow> nat \<Rightarrow> int) \<Rightarrow> (nat \<Rightarrow> nat \<Rightarrow> int) \<Rightarrow> nat \<Rightarrow> nat \<Rightarrow> int" where
  "mmf n f g i j = (\<Sum>k<n. f i k * g k j)"

definition fits :: "nat \<Rightarrow> matrix \<Rightarrow> bool" where
  "fits n A \<longleftrightarrow> n \<le> length A \<and> (\<forall>i<n. n \<le> length (A ! i))"

lemma length_mat [simp]: "length (mat n f) = n"
  by (simp add: mat_def)

lemma length_mat_row [simp]: "i < n \<Longrightarrow> length (mat n f ! i) = n"
  by (simp add: mat_def)

lemma mat_nth [simp]: "i < n \<Longrightarrow> j < n \<Longrightarrow> mat n f ! i ! j = f i j"
  by (simp add: mat_def)

lemma square_mat [simp]: "square n (mat n f)"
  by (auto simp add: square_def mat_def)

lemma mat_cong: "(\<And>i j. i < n \<Longrightarrow> j < n \<Longrightarrow> f i j = g i j) \<Longrightarrow> mat n f = mat n g"
  by (simp add: mat_def)

lemma square_eq_mat: "square n A \<Longrightarrow> A = mat n (\<lambda>i j. A ! i ! j)"
  by (auto simp add: square_def mat_def intro!: nth_equalityI)

lemma foldM_upt_invariant:
  assumes "P 0 s"
    and "\<And>p t. p < n \<Longrightarrow> P p t \<Longrightarrow> \<exists>u. f t p = Inr u \<and> P (Suc p) u"
  shows "\<exists>t. foldM f [0..<n] s = Inr t \<and> P n t"
proof -
  have "q \<le> n \<Longrightarrow> \<exists>t. foldM f [0..<q] s = Inr t \<and> P q t" for q
  proof (induction q)
    case 0
    then show ?case using assms(1) by simp
  next
    case (Suc q)
    then obtain t where t: "foldM f [0..<q] s = Inr t" "P q t" by auto
    from assms(2)[of q t] Suc.prems t obtain u where "f t q = Inr u" "P (Suc q) u" by auto
    with t show ?case by (simp add: foldM_append)
  qed
  then show ?thesis by simp
qed

lemma loop_j:
  assumes "length Ci = n" and "n \<le> length Bk"
  shows "foldM (step_j a Bk) [0..<n] Ci = Inr (map (\<lambda>j. Ci ! j + a * Bk ! j) [0..<n])"
proof -
  let ?P = "\<lambda>p t. length t = n \<and> (\<forall>j<n. t ! j = (if j < p then Ci ! j + a * Bk ! j else Ci ! j))"
  have "\<exists>t. foldM (step_j a Bk) [0..<n] Ci = Inr t \<and> ?P n t"
  proof (rule foldM_upt_invariant[where P = ?P])
    show "?P 0 Ci" using assms by simp
  next
    fix p t assume "p < n" "?P p t"
    then show "\<exists>u. step_j a Bk t p = Inr u \<and> ?P (Suc p) u"
      using assms by (auto simp add: step_j_def nth_list_update less_Suc_eq)
  qed
  then obtain t where t: "foldM (step_j a Bk) [0..<n] Ci = Inr t" "?P n t" by blast
  then have "t = map (\<lambda>j. Ci ! j + a * Bk ! j) [0..<n]"
    by (auto intro!: nth_equalityI)
  with t show ?thesis by simp
qed

lemma loop_k:
  assumes "length Ci = n" and "n \<le> length rowA" and "fits n B"
  shows "foldM (step_k rowA B n) [0..<n] Ci =
           Inr (map (\<lambda>j. Ci ! j + (\<Sum>k<n. rowA ! k * B ! k ! j)) [0..<n])"
proof -
  let ?P = "\<lambda>p t. length t = n \<and> (\<forall>j<n. t ! j = Ci ! j + (\<Sum>k<p. rowA ! k * B ! k ! j))"
  have "\<exists>t. foldM (step_k rowA B n) [0..<n] Ci = Inr t \<and> ?P n t"
  proof (rule foldM_upt_invariant[where P = ?P])
    show "?P 0 Ci" using assms by simp
  next
    fix p t assume p: "p < n" and t: "?P p t"
    from p assms have "p < length rowA" "p < length B" "n \<le> length (B ! p)"
      by (auto simp add: fits_def)
    with t show "\<exists>u. step_k rowA B n t p = Inr u \<and> ?P (Suc p) u"
      by (simp add: step_k_def loop_j)
  qed
  then obtain t where t: "foldM (step_k rowA B n) [0..<n] Ci = Inr t" "?P n t" by blast
  then have "t = map (\<lambda>j. Ci ! j + (\<Sum>k<n. rowA ! k * B ! k ! j)) [0..<n]"
    by (auto intro!: nth_equalityI)
  with t show ?thesis by simp
qed

lemma matmul_classic_fits:
  assumes "fits (length A) A" and "fits (length A) B"
  shows "matmul_classic A B = Inr (mat (length A) (mmf (length A) (\<lambda>i k. A ! i ! k) (\<lambda>k j. B ! k ! j)))"
proof -
  let ?n = "length A"
  let ?C = "replicate ?n (replicate ?n (0::int))"
  let ?P = "\<lambda>p t. length t = ?n \<and> (\<forall>i<?n. length (t ! i) = ?n \<and>
      (\<forall>j<?n. t ! i ! j = (if i < p then (\<Sum>k<?n. A ! i ! k * B ! k ! j) else 0)))"
  have "\<exists>t. foldM (step_i A B ?n) [0..<?n] ?C = Inr t \<and> ?P ?n t"
  proof (rule foldM_upt_invariant[where P = ?P])
    show "?P 0 ?C" by simp
  next
    fix p t assume p: "p < ?n" and t: "?P p t"
    from p assms have "?n \<le> length (A ! p)" by (simp add: fits_def)
    with p t assms(2) show "\<exists>u. step_i A B ?n t p = Inr u \<and> ?P (Suc p) u"
      by (auto simp add: step_i_def loop_k nth_list_update less_Suc_eq)
  qed
  then obtain t where t: "foldM (step_i A B ?n) [0..<?n] ?C = Inr t" "?P ?n t" by blast
  then have "t = mat ?n (mmf ?n (\<lambda>i k. A ! i ! k) (\<lambda>k j. B ! k ! j))"
    by (auto simp add: mmf_def intro!: nth_equalityI)
  with t show ?thesis by (simp add: matmul_classic_def Let_def)
qed

lemma fits_mat [simp]: "n \<le> m \<Longrightarrow> fits n (mat m f)"
  by (simp add: fits_def)

lemma square_fits: "square n A \<Longrightarrow> fits n A"
  by (simp add: square_def fits_def)

lemma matmul_classic_mat:
  "matmul_classic (mat n f) (mat n g) = Inr (mat n (mmf n f g))"
proof -
  have "matmul_classic (mat n f) (mat n g) =
      Inr (mat n (mmf n (\<lambda>i k. mat n f ! i ! k) (\<lambda>k j. mat n g ! k ! j)))"
    using matmul_classic_fits[of "mat n f" "mat n g"] by simp
  also have "mat n (mmf n (\<lambda>i k. mat n f ! i ! k) (\<lambda>k j. mat n g ! k ! j)) = mat n (mmf n f g)"
    by (rule mat_cong) (simp add: mmf_def)
  finally show ?thesis .
qed

lemma elementwise_mat:
  "elementwise h (mat n f) (mat n g) = Inr (mat n (\<lambda>i j. h (f i j) (g i j)))"
  unfolding elementwise_def Let_def mat_def[of n "\<lambda>i j. h (f i j) (g i j)"] length_mat
  apply (rule mapM_Inr_map)
  apply (rule mapM_Inr_map)
  apply simp
  done


section \<open>Blocks of square matrices and Strassen's identities\<close>

lemma add_matrix_mat [simp]:
  "add_matrix (mat n f) (mat n g) = Inr (mat n (\<lambda>i j. f i j + g i j))"
  by (simp add: add_matrix_def elementwise_mat)

lemma sub_matrix_mat [simp]:
  "sub_matrix (mat n f) (mat n g) = Inr (mat n (\<lambda>i j. f i j - g i j))"
  by (simp add: sub_matrix_def elementwise_mat)

lemma q11_mat [simp]: "q11 m (mat (2 * m) f) = mat m f"
  by (auto simp add: q11_def mat_def intro!: nth_equalityI)

lemma q12_mat [simp]: "q12 m (mat (2 * m) f) = mat m (\<lambda>i j. f i (m + j))"
  by (auto simp add: q12_def mat_def intro!: nth_equalityI)

lemma q21_mat [simp]: "q21 m (mat (2 * m) f) = mat m (\<lambda>i j. f (m + i) j)"
  by (auto simp add: q21_def mat_def intro!: nth_equalityI)

lemma q22_mat [simp]: "q22 m (mat (2 * m) f) = mat m (\<lambda>i j. f (m + i) (m + j))"
  by (auto simp add: q22_def mat_def intro!: nth_equalityI)

definition joined :: "nat \<Rightarrow> (nat \<Rightarrow> nat \<Rightarrow> int) \<Rightarrow> (nat \<Rightarrow> nat \<Rightarrow> int) \<Rightarrow>
    (nat \<Rightarrow> nat \<Rightarrow> int) \<Rightarrow> (nat \<Rightarrow> nat \<Rightarrow> int) \<Rightarrow> nat \<Rightarrow> nat \<Rightarrow> int" where
  "joined m c11 c12 c21 c22 i j =
     (if i < m then (if j < m then c11 i j else c12 i (j - m))
      else (if j < m then c21 (i - m) j else c22 (i - m) (j - m)))"

lemma join_rows_mat:
  "join_rows m (mat m f) (mat m g) = Inr (map (\<lambda>i. mat m f ! i @ mat m g ! i) [0..<m])"
  unfolding join_rows_def
  by (rule mapM_Inr_map) simp

lemma join_mat [simp]:
  "join m (mat m c11) (mat m c12) (mat m c21) (mat m c22) =
     Inr (mat (2 * m) (joined m c11 c12 c21 c22))"
proof -
  have "map (\<lambda>i. mat m c11 ! i @ mat m c12 ! i) [0..<m] @
        map (\<lambda>i. mat m c21 ! i @ mat m c22 ! i) [0..<m] = mat (2 * m) (joined m c11 c12 c21 c22)"
    (is "?L = ?R")
  proof (rule nth_equalityI)
    show "length ?L = length ?R" by simp
  next
    fix i assume "i < length ?L"
    then have i: "i < 2 * m" by simp
    show "?L ! i = ?R ! i"
    proof (rule nth_equalityI)
      show "length (?L ! i) = length (?R ! i)"
        using i by (simp add: nth_append)
    next
      fix j assume "j < length (?L ! i)"
      with i have j: "j < 2 * m" by (simp add: nth_append split: if_splits)
      show "?L ! i ! j = ?R ! i ! j"
        using i j by (simp add: nth_append joined_def)
    qed
  qed
  then show ?thesis by (simp add: join_def join_rows_mat)
qed

lemma sum_halves: "(\<Sum>k<2 * (m::nat). F k) = (\<Sum>k<m. F k) + (\<Sum>k<m. (F (m + k) :: int))"
proof -
  have "{..<2 * m} = {..<m} \<union> {m..<m + m}" by auto
  then have "(\<Sum>k<2 * m. F k) = (\<Sum>k<m. F k) + (\<Sum>k\<in>{m..<m + m}. F k)"
    by (simp add: sum.union_disjoint ivl_disj_int)
  also have "(\<Sum>k\<in>{m..<m + m}. F k) = (\<Sum>k<m. F (m + k))"
    using sum.shift_bounds_nat_ivl[of F 0 m m] by (simp add: lessThan_atLeast0 add.commute)
  finally show ?thesis .
qed

lemma sum_halves': "(\<Sum>k<(m::nat) * 2. F k) = (\<Sum>k<m. F k) + (\<Sum>k<m. (F (k + m) :: int))"
  using sum_halves[of F m] by (simp add: mult.commute add.commute)

lemma strassen_formulas:
  "mat (2 * m) (joined m
     (\<lambda>i j. mmf m (\<lambda>i j. f i j + f (m + i) (m + j)) (\<lambda>i j. g i j + g (m + i) (m + j)) i j
           + mmf m (\<lambda>i j. f (m + i) (m + j)) (\<lambda>i j. g (m + i) j - g i j) i j
           + mmf m (\<lambda>i j. f i (m + j) - f (m + i) (m + j)) (\<lambda>i j. g (m + i) j + g (m + i) (m + j)) i j
           - mmf m (\<lambda>i j. f i j + f i (m + j)) (\<lambda>i j. g (m + i) (m + j)) i j)
     (\<lambda>i j. mmf m f (\<lambda>i j. g i (m + j) - g (m + i) (m + j)) i j
           + mmf m (\<lambda>i j. f i j + f i (m + j)) (\<lambda>i j. g (m + i) (m + j)) i j)
     (\<lambda>i j. mmf m (\<lambda>i j. f (m + i) j + f (m + i) (m + j)) g i j
           + mmf m (\<lambda>i j. f (m + i) (m + j)) (\<lambda>i j. g (m + i) j - g i j) i j)
     (\<lambda>i j. mmf m (\<lambda>i j. f i j + f (m + i) (m + j)) (\<lambda>i j. g i j + g (m + i) (m + j)) i j
           + mmf m f (\<lambda>i j. g i (m + j) - g (m + i) (m + j)) i j
           - mmf m (\<lambda>i j. f (m + i) j + f (m + i) (m + j)) g i j
           + mmf m (\<lambda>i j. f (m + i) j - f i j) (\<lambda>i j. g i j + g i (m + j)) i j))
   = mat (2 * m) (mmf (2 * m) f g)"
  by (rule mat_cong)
    (simp add: joined_def mmf_def sum_halves' sum.distrib sum_subtractf algebra_simps)

lemma strassen_core_bm_pow2:
  "1 \<le> c \<Longrightarrow> strassen_core_bm (mat (2 ^ k) f) (mat (2 ^ k) g) c = Inr (mat (2 ^ k) (mmf (2 ^ k) f g))"
proof (induction k arbitrary: f g)
  case 0
  then show ?case
    by (subst strassen_core_bm.simps) (simp add: matmul_classic_mat)
next
  case (Suc k)
  show ?case
  proof (cases "int (2 ^ Suc k) \<le> c")
    case True
    then show ?thesis
      by (subst strassen_core_bm.simps) (simp add: matmul_classic_mat Let_def)
  next
    case False
    then show ?thesis
      apply (subst strassen_core_bm.simps)
      apply (simp add: Let_def Suc.IH[OF Suc.prems] del: mat_nth)
      apply (rule strassen_formulas)
      done
  qed
qed


lemma sum_halves'': "(\<Sum>k<2 * (m::nat). F k) = (\<Sum>k<m. F k) + (\<Sum>k<m. (F (k + m) :: int))"
  using sum_halves[of F m] by (simp add: add.commute)

lemma strassen_winograd_core_step:
  assumes IH: "\<And>f g. strassen_winograd_core (mat m f) (mat m g) c = Inr (mat m (mmf m f g))"
    and big: "\<not> int (2 * m) \<le> c" and pos: "0 < m"
  shows "strassen_winograd_core (mat (2 * m) f) (mat (2 * m) g) c =
           Inr (mat (2 * m) (mmf (2 * m) f g))"
  using big pos
  apply (subst strassen_winograd_core.simps)
  apply (simp add: Let_def IH del: mat_nth)
  apply (rule mat_cong)
  apply (simp add: joined_def mmf_def sum_halves' sum_halves'' sum.distrib sum_subtractf algebra_simps)
  done

lemma strassen_winograd_core_pow2:
  "1 \<le> c \<Longrightarrow> strassen_winograd_core (mat (2 ^ k) f) (mat (2 ^ k) g) c =
     Inr (mat (2 ^ k) (mmf (2 ^ k) f g))"
proof (induction k arbitrary: f g)
  case 0
  then show ?case
    by (subst strassen_winograd_core.simps) (simp add: matmul_classic_mat)
next
  case (Suc k)
  show ?case
  proof (cases "int (2 ^ Suc k) \<le> c")
    case True
    then show ?thesis
      by (subst strassen_winograd_core.simps) (simp add: matmul_classic_mat Let_def)
  next
    case False
    then have "\<not> int (2 * 2 ^ k) \<le> c" by simp
    from strassen_winograd_core_step[of "2 ^ k" c f g, OF Suc.IH[OF Suc.prems] this]
    show ?thesis by simp
  qed
qed

lemma strassen_core_square:
  "0 \<le> c \<or> 0 < n \<Longrightarrow> strassen_core (mat n f) (mat n g) c = Inr (mat n (mmf n f g))"
proof (induction n arbitrary: f g rule: less_induct)
  case (less n)
  show ?case
  proof (cases "int n \<le> c \<or> n mod 2 = 1")
    case True
    then show ?thesis
      by (subst strassen_core.simps) (auto simp add: matmul_classic_mat Let_def)
  next
    case False
    with less.prems have pos: "0 < n" by (cases "n = 0") auto
    from False have "even n" by presburger
    then obtain m where n: "n = 2 * m" by (auto elim: evenE)
    with pos have m: "m < n" "0 < m" by simp_all
    have IH: "strassen_core (mat m f') (mat m g') c = Inr (mat m (mmf m f' g'))" for f' g'
      by (rule less.IH) (use m in simp_all)
    from False pos show ?thesis
      unfolding n
      apply (subst strassen_core.simps)
      apply (simp add: Let_def IH del: mat_nth)
      apply (rule strassen_formulas)
      done
  qed
qed

lemma pad_mat:
  "n \<le> m \<Longrightarrow> pad m n (mat n f) = mat m (\<lambda>i j. if i < n \<and> j < n then f i j else 0)"
  by (auto simp add: pad_def mat_def nth_append intro!: nth_equalityI)

lemma crop_mat: "n \<le> m \<Longrightarrow> crop n (mat m h) = mat n h"
  by (auto simp add: crop_def mat_def intro!: nth_equalityI)

lemma sum_padded:
  assumes "n \<le> (m::nat)"
  shows "(\<Sum>k<m. (if k < n then F k else (0::int))) = (\<Sum>k<n. F k)"
proof -
  have "(\<Sum>k<m. (if k < n then F k else 0)) = (\<Sum>k\<in>{..<m} \<inter> {k. k < n}. F k)"
    by (simp add: sum.inter_restrict)
  also have "{..<m} \<inter> {k. k < n} = {..<n}" using assms by auto
  finally show ?thesis .
qed

lemma mmf_padded:
  assumes "n \<le> m" "i < n" "j < n"
  shows "mmf m (\<lambda>i j. if i < n \<and> j < n then f i j else 0)
               (\<lambda>i j. if i < n \<and> j < n then g i j else 0) i j = mmf n f g i j"
proof -
  have "(\<Sum>k<m. (if i < n \<and> k < n then f i k else 0) * (if k < n \<and> j < n then g k j else 0))
      = (\<Sum>k<m. (if k < n then f i k * g k j else 0))"
    using assms by (intro sum.cong) auto
  then show ?thesis using assms by (simp add: mmf_def sum_padded)
qed

lemma bit_length_upper: "n < 2 ^ bit_length n"
proof (induction n rule: bit_length.induct)
  case (1 n)
  show ?case
  proof (cases "n = 0")
    case True
    then show ?thesis by (simp add: bit_length.simps)
  next
    case False
    with 1 have "n div 2 < 2 ^ bit_length (n div 2)" by simp
    then have "n < 2 * 2 ^ bit_length (n div 2)" by linarith
    with False show ?thesis by (subst bit_length.simps) simp
  qed
qed

lemma bit_length_lower: "0 < n \<Longrightarrow> 2 ^ (bit_length n - 1) \<le> n"
proof (induction n rule: bit_length.induct)
  case (1 n)
  show ?case
  proof (cases "n div 2 = 0")
    case True
    with 1(2) have "n = 1" by linarith
    then show ?thesis by (simp add: bit_length.simps)
  next
    case False
    with 1 have IH: "2 ^ (bit_length (n div 2) - 1) \<le> n div 2" by simp
    from False have "0 < bit_length (n div 2)" by (subst bit_length.simps) simp
    then have "(2::nat) ^ bit_length (n div 2) = 2 * 2 ^ (bit_length (n div 2) - 1)"
      by (cases "bit_length (n div 2)") simp_all
    with IH have "2 ^ bit_length (n div 2) \<le> n" by linarith
    with 1(2) show ?thesis by (subst bit_length.simps) simp
  qed
qed

lemma and_pred_zero_pow2:
  "0 < n \<Longrightarrow> and n (n - 1) = (0::nat) \<Longrightarrow> \<exists>k. n = 2 ^ k"
proof (induction n rule: less_induct)
  case (less n)
  show ?case
  proof (cases "n = 1")
    case True
    then have "n = 2 ^ 0" by simp
    then show ?thesis by blast
  next
    case False
    with less.prems have n2: "2 \<le> n" by simp
    show ?thesis
    proof (cases "even n")
      case True
      then obtain h where h: "n = 2 * h" by (auto elim: evenE)
      with n2 have hpos: "0 < h" "h < n" by simp_all
      have "(n - 1) div 2 = h - 1" using h hpos by simp
      moreover have "n div 2 = h" using h by simp
      ultimately have "and n (n - 1) = of_bool (odd n \<and> odd (n - 1)) + 2 * and h (h - 1)"
        by (subst and_nat_rec) simp
      with less.prems(2) have "and h (h - 1) = 0" by simp
      from less.IH[OF hpos(2) hpos(1) this] obtain k where "h = 2 ^ k" by blast
      with h have "n = 2 ^ Suc k" by simp
      then show ?thesis by blast
    next
      case False
      then obtain h where h: "n = 2 * h + 1" by (auto elim: oddE)
      with n2 have hpos: "0 < h" by simp
      have "and n (n - 1) = of_bool (odd n \<and> odd (n - 1)) + 2 * and (n div 2) ((n - 1) div 2)"
        by (subst and_nat_rec) simp
      also have "\<dots> = 2 * and h h" using h by simp
      finally have "and n (n - 1) = 2 * h" by simp
      with less.prems(2) hpos show ?thesis by simp
    qed
  qed
qed

lemma pow2_and_pred_zero: "and ((2::nat) ^ k) (2 ^ k - 1) = 0"
proof (induction k)
  case 0
  show ?case by simp
next
  case (Suc k)
  have "((2::nat) ^ Suc k - 1) div 2 = 2 ^ k - 1" by simp
  moreover have "(2::nat) ^ Suc k div 2 = 2 ^ k" by simp
  ultimately have "and ((2::nat) ^ Suc k) (2 ^ Suc k - 1) =
      of_bool (odd ((2::nat) ^ Suc k) \<and> odd ((2::nat) ^ Suc k - 1)) + 2 * and (2 ^ k) (2 ^ k - 1)"
    by (subst and_nat_rec) simp
  with Suc show ?case by simp
qed


section \<open>The entry points on square matrices\<close>

lemma shape_ok_square: "square n A \<Longrightarrow> square n B \<Longrightarrow> 0 < n \<Longrightarrow> shape_ok A B"
  by (auto simp add: shape_ok_def square_def)

lemma padded_pow2_core:
  assumes core: "\<And>k f g. core (mat (2 ^ k) f) (mat (2 ^ k) g) c = Inr (mat (2 ^ k) (mmf (2 ^ k) f g))"
    and n: "0 < n"
  shows "padded core (mat n f) (mat n g) c = Inr (mat n (mmf n f g))"
proof (cases "and n (n - 1) = 0")
  case True
  with n obtain k where "n = 2 ^ k" using and_pred_zero_pow2 by blast
  with True show ?thesis by (simp add: padded_def core Let_def)
next
  case False
  let ?m = "2 ^ bit_length (n - 1)"
  have le: "n \<le> ?m" using bit_length_upper[of "n - 1"] n by linarith
  have "crop n (mat ?m (mmf ?m (\<lambda>i j. if i < n \<and> j < n then f i j else 0)
                              (\<lambda>i j. if i < n \<and> j < n then g i j else 0))) = mat n (mmf n f g)"
    using le by (simp add: crop_mat mmf_padded cong: mat_cong)
  with False le show ?thesis
    by (simp add: padded_def Let_def pad_mat core)
qed

lemma matmul_strassen_square:
  assumes "square n A" "square n B" "1 \<le> c"
  shows "matmul_strassen A B c = Inr (mat n (mmf n (\<lambda>i k. A ! i ! k) (\<lambda>k j. B ! k ! j)))"
proof (cases "n = 0")
  case True
  with assms show ?thesis by (simp add: matmul_strassen_def square_def mat_def)
next
  case False
  then have pos: "0 < n" by simp
  have len: "length A = n" using assms by (simp add: square_def)
  have "padded strassen_core_bm (mat n (\<lambda>i j. A ! i ! j)) (mat n (\<lambda>i j. B ! i ! j)) c =
      Inr (mat n (mmf n (\<lambda>i k. A ! i ! k) (\<lambda>k j. B ! k ! j)))"
    by (rule padded_pow2_core) (simp_all add: strassen_core_bm_pow2 assms pos)
  then have "padded strassen_core_bm A B c =
      Inr (mat n (mmf n (\<lambda>i k. A ! i ! k) (\<lambda>k j. B ! k ! j)))"
    using square_eq_mat[OF assms(1)] square_eq_mat[OF assms(2)] by simp
  with pos len shape_ok_square[OF assms(1,2) pos] show ?thesis
    by (simp add: matmul_strassen_def)
qed

lemma matmul_strassen_winograd_square:
  assumes "square n A" "square n B" "1 \<le> c"
  shows "matmul_strassen_winograd A B c =
           Inr (mat n (mmf n (\<lambda>i k. A ! i ! k) (\<lambda>k j. B ! k ! j)))"
proof (cases "n = 0")
  case True
  with assms show ?thesis by (simp add: matmul_strassen_winograd_def square_def mat_def)
next
  case False
  then have pos: "0 < n" by simp
  have len: "length A = n" using assms by (simp add: square_def)
  have "padded strassen_winograd_core (mat n (\<lambda>i j. A ! i ! j)) (mat n (\<lambda>i j. B ! i ! j)) c =
      Inr (mat n (mmf n (\<lambda>i k. A ! i ! k) (\<lambda>k j. B ! k ! j)))"
    by (rule padded_pow2_core) (simp_all add: strassen_winograd_core_pow2 assms pos)
  then have "padded strassen_winograd_core A B c =
      Inr (mat n (mmf n (\<lambda>i k. A ! i ! k) (\<lambda>k j. B ! k ! j)))"
    using square_eq_mat[OF assms(1)] square_eq_mat[OF assms(2)] by simp
  with pos len shape_ok_square[OF assms(1,2) pos] show ?thesis
    by (simp add: matmul_strassen_winograd_def)
qed

lemma matmul_strassen_ans_square:
  assumes "square n A" "square n B"
  shows "matmul_strassen_ans A B c =
           Inr (mat n (mmf n (\<lambda>i k. A ! i ! k) (\<lambda>k j. B ! k ! j)))"
proof (cases "n = 0")
  case True
  with assms show ?thesis by (simp add: matmul_strassen_ans_def square_def mat_def)
next
  case False
  then have pos: "0 < n" by simp
  have len: "length A = n" "length B = n" "length (A ! 0) = n" "length (B ! 0) = n"
    using assms pos by (auto simp add: square_def)
  have "strassen_core (mat n (\<lambda>i j. A ! i ! j)) (mat n (\<lambda>i j. B ! i ! j)) c =
      Inr (mat n (mmf n (\<lambda>i k. A ! i ! k) (\<lambda>k j. B ! k ! j)))"
    by (rule strassen_core_square) (simp add: pos)
  then have "strassen_core A B c = Inr (mat n (mmf n (\<lambda>i k. A ! i ! k) (\<lambda>k j. B ! k ! j)))"
    using square_eq_mat[OF assms(1)] square_eq_mat[OF assms(2)] by simp
  with pos len show ?thesis
    by (simp add: matmul_strassen_ans_def)
qed

lemma matmul_classic_square:
  assumes "square n A" "square n B"
  shows "matmul_classic A B = Inr (mat n (mmf n (\<lambda>i k. A ! i ! k) (\<lambda>k j. B ! k ! j)))"
  using matmul_classic_fits[of A B] assms
  by (simp add: square_fits square_def)

lemma concrete_product:
  "matmul_classic [[1, 2], [3, 4]] [[1, 2], [3, 4]] = Inr [[7, 10], [15, 22]]"
  by code_simp

lemma three_not_pow2: "\<forall>k. (3::nat) \<noteq> 2 ^ k"
proof
  fix k :: nat
  show "(3::nat) \<noteq> 2 ^ k"
  proof
    assume h: "(3::nat) = 2 ^ k"
    then have "odd ((2::nat) ^ k)" by (metis odd_numeral)
    then have "k = 0" by simp
    with h show False by simp
  qed
qed


section \<open>Correctness of the three algorithms\<close>

lemma square_mat_entries:
  "square n C \<and> (\<forall>i<n. \<forall>j<n. C ! i ! j = h i j) \<longleftrightarrow> C = mat n h"
proof
  assume h: "square n C \<and> (\<forall>i<n. \<forall>j<n. C ! i ! j = h i j)"
  then have "C = mat n (\<lambda>i j. C ! i ! j)" by (simp add: square_eq_mat)
  also have "\<dots> = mat n h" using h by (intro mat_cong) simp
  finally show "C = mat n h" .
next
  assume "C = mat n h"
  then show "square n C \<and> (\<forall>i<n. \<forall>j<n. C ! i ! j = h i j)" by simp
qed

text \<open>
  Claim C1: for square integer matrices \<open>A\<close>, \<open>B\<close> of equal order \<open>n \<ge> 0\<close> and every
  cutoff \<open>\<ge> 1\<close>, \<^verbatim>\<open>matmul_strassen\<close> and \<^verbatim>\<open>matmul_strassen_winograd\<close> both return a
  matrix, and it is exactly the matrix \<^verbatim>\<open>matmul_classic\<close> returns.
\<close>

theorem strassen_winograd_equal_classic:
  assumes "square n A" and "square n B" and "1 \<le> cutoff"
  shows "\<exists>C. matmul_classic A B = Inr C
           \<and> matmul_strassen A B cutoff = Inr C
           \<and> matmul_strassen_winograd A B cutoff = Inr C"
  using matmul_classic_square[OF assms(1,2)] matmul_strassen_square[OF assms]
    matmul_strassen_winograd_square[OF assms]
  by simp

theorem strassen_winograd_equal_classic_witness:
  "square 2 [[1, 2], [3, 4]] \<and> (1::int) \<le> 1
   \<and> matmul_strassen [[1, 2], [3, 4]] [[1, 2], [3, 4]] 1 = Inr [[7, 10], [15, 22]]
   \<and> matmul_strassen_winograd [[1, 2], [3, 4]] [[1, 2], [3, 4]] 1 = Inr [[7, 10], [15, 22]]"
proof -
  have sq: "square 2 [[1, 2], [3, 4]]" by (simp add: square_def)
  have "\<exists>C. matmul_classic [[1, 2], [3, 4]] [[1, 2], [3, 4]] = Inr C
           \<and> matmul_strassen [[1, 2], [3, 4]] [[1, 2], [3, 4]] 1 = Inr C
           \<and> matmul_strassen_winograd [[1, 2], [3, 4]] [[1, 2], [3, 4]] 1 = Inr C"
    by (rule strassen_winograd_equal_classic[OF sq sq]) simp
  with sq show ?thesis by (simp add: concrete_product)
qed

text \<open>
  Claim C2: for square matrices \<open>A\<close>, \<open>B\<close> of equal order \<open>n\<close>, \<^verbatim>\<open>matmul_classic\<close>
  returns the square matrix \<open>C\<close> of order \<open>n\<close> with
  \<open>C[i][j] = \<Sum>k<n. A[i][k] * B[k][j]\<close> for all \<open>i, j < n\<close>.
\<close>

theorem matmul_classic_standard_product:
  assumes "square n A" and "square n B"
  shows "\<exists>C. matmul_classic A B = Inr C \<and> square n C
           \<and> (\<forall>i<n. \<forall>j<n. C ! i ! j = (\<Sum>k<n. A ! i ! k * B ! k ! j))"
  using matmul_classic_square[OF assms] by (simp add: mmf_def)

theorem matmul_classic_standard_product_witness:
  "square 2 [[1, 2], [3, 4]]
   \<and> (\<exists>C. matmul_classic [[1, 2], [3, 4]] [[1, 2], [3, 4]] = Inr C \<and> square 2 C
           \<and> (\<forall>i<2. \<forall>j<2. C ! i ! j = (\<Sum>k<2. [[1, 2], [3, 4]] ! i ! k * [[1, 2], [3, 4]] ! k ! j)))"
proof -
  have sq: "square 2 [[1, 2], [3, 4]]" by (simp add: square_def)
  from matmul_classic_standard_product[OF sq sq] sq show ?thesis by blast
qed


lemma pad_square:
  assumes "square n A" and "n \<le> m"
  shows "pad m n A = mat m (\<lambda>i j. if i < n \<and> j < n then A ! i ! j else 0)"
proof -
  have "pad m n (mat n (\<lambda>i j. A ! i ! j)) = mat m (\<lambda>i j. if i < n \<and> j < n then A ! i ! j else 0)"
    using assms(2) by (rule pad_mat)
  then show ?thesis using square_eq_mat[OF assms(1)] by simp
qed

lemma next_pow2_bounds:
  assumes "0 < n" and "\<forall>k. n \<noteq> 2 ^ k"
  shows "n < 2 ^ bit_length (n - 1)" and "2 ^ bit_length (n - 1) div 2 < n"
proof -
  have "n \<le> 2 ^ bit_length (n - 1)" using bit_length_upper[of "n - 1"] assms(1) by linarith
  with assms(2) show "n < 2 ^ bit_length (n - 1)" by (metis le_neq_implies_less)
  have "n \<noteq> 2 ^ 0" using assms(2) by blast
  with assms(1) have pos: "0 < n - 1" by simp
  then have "0 < bit_length (n - 1)" by (subst bit_length.simps) simp
  then have "(2::nat) ^ bit_length (n - 1) div 2 = 2 ^ (bit_length (n - 1) - 1)"
    by (cases "bit_length (n - 1)") simp_all
  with bit_length_lower[OF pos] pos show "2 ^ bit_length (n - 1) div 2 < n" by linarith
qed

text \<open>
  Claim C3: for square \<open>A\<close>, \<open>B\<close> of order \<open>n \<ge> 1\<close> that is not a power of two, both
  entry points pad the operands with zeros to order \<open>m\<close>, the next power of two above
  \<open>n\<close> (\<open>m div 2 < n < m\<close>); the padded operands are square of order \<open>m\<close>, carry
  the original in the leading block and zero elsewhere; each recursive engine returns the
  product \<open>Cp\<close> of the padded operands; and each entry point returns the leading
  \<open>n\<close> by \<open>n\<close> block of \<open>Cp\<close>, which is the exact product of \<open>A\<close> and \<open>B\<close>.
\<close>

theorem padding_and_crop_exact:
  fixes A B :: matrix
  defines "pA \<equiv> pad (2 ^ bit_length (length A - 1)) (length A) A"
    and "pB \<equiv> pad (2 ^ bit_length (length A - 1)) (length A) B"
  assumes "square n A" and "square n B" and "0 < n" and "\<forall>k. n \<noteq> 2 ^ k" and "1 \<le> cutoff"
  shows "n < 2 ^ bit_length (n - 1) \<and> 2 ^ bit_length (n - 1) div 2 < n
    \<and> square (2 ^ bit_length (n - 1)) pA \<and> square (2 ^ bit_length (n - 1)) pB
    \<and> (\<forall>i<2 ^ bit_length (n - 1). \<forall>j<2 ^ bit_length (n - 1).
          pA ! i ! j = (if i < n \<and> j < n then A ! i ! j else 0)
        \<and> pB ! i ! j = (if i < n \<and> j < n then B ! i ! j else 0))
    \<and> (\<exists>Cp. strassen_core_bm pA pB cutoff = Inr Cp
          \<and> strassen_winograd_core pA pB cutoff = Inr Cp
          \<and> square (2 ^ bit_length (n - 1)) Cp
          \<and> (\<forall>i<2 ^ bit_length (n - 1). \<forall>j<2 ^ bit_length (n - 1).
                Cp ! i ! j = (\<Sum>k<2 ^ bit_length (n - 1). pA ! i ! k * pB ! k ! j))
          \<and> matmul_strassen A B cutoff = Inr (crop n Cp)
          \<and> matmul_strassen_winograd A B cutoff = Inr (crop n Cp)
          \<and> square n (crop n Cp)
          \<and> (\<forall>i<n. \<forall>j<n. crop n Cp ! i ! j = (\<Sum>k<n. A ! i ! k * B ! k ! j)))"
proof -
  let ?m = "2 ^ bit_length (n - 1) :: nat"
  let ?fA = "\<lambda>i j. if i < n \<and> j < n then A ! i ! j else 0"
  let ?fB = "\<lambda>i j. if i < n \<and> j < n then B ! i ! j else 0"
  let ?Cp = "mat ?m (mmf ?m ?fA ?fB)"
  have len: "length A = n" using assms by (simp add: square_def)
  have bounds: "n < ?m" "?m div 2 < n"
    using next_pow2_bounds[of n] assms by simp_all
  have pA: "pA = mat ?m ?fA" and pB: "pB = mat ?m ?fB"
    using pad_square[of n _ ?m] assms bounds(1) by (simp_all add: pA_def pB_def len)
  have nz: "and n (n - 1) \<noteq> 0"
    using and_pred_zero_pow2[of n] assms by blast
  have s1: "strassen_core_bm pA pB cutoff = Inr ?Cp"
    unfolding pA pB using assms by (simp add: strassen_core_bm_pow2)
  have s2: "strassen_winograd_core pA pB cutoff = Inr ?Cp"
    unfolding pA pB using assms by (simp add: strassen_winograd_core_pow2)
  have entries: "\<forall>i<?m. \<forall>j<?m. ?Cp ! i ! j = (\<Sum>k<?m. pA ! i ! k * pB ! k ! j)"
    unfolding pA pB by (simp add: mmf_def)
  have crop: "crop n ?Cp = mat n (mmf n (\<lambda>i k. A ! i ! k) (\<lambda>k j. B ! k ! j))"
    using bounds(1) by (simp add: crop_mat mmf_padded cong: mat_cong)
  have ok: "shape_ok A B" using assms by (simp add: shape_ok_square)
  have e1: "matmul_strassen A B cutoff = Inr (crop n ?Cp)"
    using assms(5) ok nz s1 by (simp add: matmul_strassen_def padded_def Let_def len pA_def pB_def)
  have e2: "matmul_strassen_winograd A B cutoff = Inr (crop n ?Cp)"
    using assms(5) ok nz s2
    by (simp add: matmul_strassen_winograd_def padded_def Let_def len pA_def pB_def)
  have c1: "square n (crop n ?Cp)" unfolding crop by simp
  have c2: "\<forall>i<n. \<forall>j<n. crop n ?Cp ! i ! j = (\<Sum>k<n. A ! i ! k * B ! k ! j)"
    unfolding crop by (simp add: mmf_def)
  have sqp: "square ?m pA" "square ?m pB" unfolding pA pB by simp_all
  have ent: "\<forall>i<?m. \<forall>j<?m. pA ! i ! j = ?fA i j \<and> pB ! i ! j = ?fB i j"
    unfolding pA pB by simp
  have ex: "\<exists>Cp. strassen_core_bm pA pB cutoff = Inr Cp
          \<and> strassen_winograd_core pA pB cutoff = Inr Cp
          \<and> square ?m Cp
          \<and> (\<forall>i<?m. \<forall>j<?m. Cp ! i ! j = (\<Sum>k<?m. pA ! i ! k * pB ! k ! j))
          \<and> matmul_strassen A B cutoff = Inr (crop n Cp)
          \<and> matmul_strassen_winograd A B cutoff = Inr (crop n Cp)
          \<and> square n (crop n Cp)
          \<and> (\<forall>i<n. \<forall>j<n. crop n Cp ! i ! j = (\<Sum>k<n. A ! i ! k * B ! k ! j))"
    using s1 s2 entries e1 e2 c1 c2 square_mat[of ?m] by blast
  from bounds sqp ent ex show ?thesis by blast
qed


text \<open>
  The engine of \<^verbatim>\<open>matrix_benchmark.py\<close> has no odd-order branch: on an odd order above
  the cutoff it splits into quadrants of unequal size and the first elementwise operation
  on the lower half reads past the end of a row.  Its entry point never passes it such
  an input when the cutoff is at least 1, since it pads to a power of two first.
\<close>

lemma strassen_core_bm_odd_raises: "strassen_core_bm [[1, 2, 3], [4, 5, 6], [7, 8, 9]] [[1, 0, 0], [0, 1, 0], [0, 0, 1]] 1 = Inl IndexError"
  by code_simp

text \<open>
  Claim C4: for fixed square \<open>A\<close>, \<open>B\<close> of order \<open>n\<close> and any two cutoffs between 1
  and \<open>n\<close>, each entry point (Strassen and Winograd of \<^verbatim>\<open>matrix_benchmark.py\<close>, Strassen
  of \<^verbatim>\<open>answer.py\<close>) returns the same matrix for both cutoffs.
\<close>

theorem cutoff_invariance:
  assumes "square n A" and "square n B"
    and "1 \<le> c1" and "c1 \<le> int n" and "1 \<le> c2" and "c2 \<le> int n"
  shows "matmul_strassen A B c1 = matmul_strassen A B c2
    \<and> matmul_strassen_winograd A B c1 = matmul_strassen_winograd A B c2
    \<and> matmul_strassen_ans A B c1 = matmul_strassen_ans A B c2
    \<and> (\<exists>C. matmul_strassen A B c1 = Inr C \<and> matmul_strassen_winograd A B c1 = Inr C
          \<and> matmul_strassen_ans A B c1 = Inr C)"
  using matmul_strassen_square[OF assms(1,2,3)] matmul_strassen_square[OF assms(1,2,5)]
    matmul_strassen_winograd_square[OF assms(1,2,3)] matmul_strassen_winograd_square[OF assms(1,2,5)]
    matmul_strassen_ans_square[OF assms(1,2), of c1] matmul_strassen_ans_square[OF assms(1,2), of c2]
  by simp

text \<open>
  Claim C5: for square \<open>A\<close>, \<open>B\<close> of equal odd order \<open>n\<close> above the cutoff, the
  recursive engine \<^verbatim>\<open>strassen_core\<close> (the variant of \<^verbatim>\<open>answer.py\<close>, which has the
  odd-order policy) returns what \<^verbatim>\<open>matmul_classic\<close> returns, without recursing.
\<close>

theorem odd_order_falls_back_to_classic:
  assumes "square n A" and "square n B" and "odd n" and "cutoff < int n"
  shows "strassen_core A B cutoff = matmul_classic A B"
proof -
  have "length A = n" using assms(1) by (simp add: square_def)
  moreover have "n mod 2 = 1" using assms(3) by presburger
  ultimately show ?thesis
    by (subst strassen_core.simps) (simp add: Let_def)
qed


theorem padding_and_crop_exact_witness:
  "square 3 [[2, 0, 1], [1, 3, 2], [0, 1, 4]] \<and> square 3 [[1, 0, 0], [0, 1, 0], [0, 0, 1]]
   \<and> (\<forall>k. (3::nat) \<noteq> 2 ^ k)
   \<and> matmul_strassen [[2, 0, 1], [1, 3, 2], [0, 1, 4]] [[1, 0, 0], [0, 1, 0], [0, 0, 1]] 1
       = Inr [[2, 0, 1], [1, 3, 2], [0, 1, 4]]
   \<and> matmul_strassen_winograd [[2, 0, 1], [1, 3, 2], [0, 1, 4]] [[1, 0, 0], [0, 1, 0], [0, 0, 1]] 1
       = Inr [[2, 0, 1], [1, 3, 2], [0, 1, 4]]"
proof -
  let ?A = "[[2, 0, 1], [1, 3, 2], [0, 1, 4]] :: matrix"
  let ?I = "[[1, 0, 0], [0, 1, 0], [0, 0, 1]] :: matrix"
  have sqA: "square 3 ?A" and sqI: "square 3 ?I" by (simp_all add: square_def)
  have pos: "0 < (3::nat)" and c: "(1::int) \<le> 1" by simp_all
  from padding_and_crop_exact[OF sqA sqI pos three_not_pow2 c]
  obtain Cp where r: "matmul_strassen ?A ?I 1 = Inr (crop 3 Cp)"
      "matmul_strassen_winograd ?A ?I 1 = Inr (crop 3 Cp)"
      "square 3 (crop 3 Cp) \<and>
       (\<forall>i<3. \<forall>j<3. crop 3 Cp ! i ! j = (\<Sum>k<3. ?A ! i ! k * ?I ! k ! j))"
    by blast
  from r(3) have "crop 3 Cp = mat 3 (\<lambda>i j. \<Sum>k<3. ?A ! i ! k * ?I ! k ! j)"
    by (simp only: square_mat_entries)
  also have "\<dots> = ?A" by code_simp
  finally have "crop 3 Cp = ?A" .
  with r(1,2) sqA sqI three_not_pow2 show ?thesis by simp
qed

theorem cutoff_invariance_witness:
  "square 2 [[1, 2], [3, 4]] \<and> (1::int) \<le> 1 \<and> (1::int) \<le> int 2 \<and> (1::int) \<le> 2 \<and> (2::int) \<le> int 2
   \<and> matmul_strassen [[1, 2], [3, 4]] [[1, 2], [3, 4]] 1
       = matmul_strassen [[1, 2], [3, 4]] [[1, 2], [3, 4]] 2
   \<and> matmul_strassen_winograd [[1, 2], [3, 4]] [[1, 2], [3, 4]] 1
       = matmul_strassen_winograd [[1, 2], [3, 4]] [[1, 2], [3, 4]] 2
   \<and> matmul_strassen_ans [[1, 2], [3, 4]] [[1, 2], [3, 4]] 1
       = matmul_strassen_ans [[1, 2], [3, 4]] [[1, 2], [3, 4]] 2"
proof -
  have sq: "square 2 [[1, 2], [3, 4]]" by (simp add: square_def)
  have b: "(1::int) \<le> 1" "(1::int) \<le> int 2" "(1::int) \<le> 2" "(2::int) \<le> int 2" by simp_all
  from cutoff_invariance[OF sq sq b] sq b show ?thesis by blast
qed

theorem odd_order_falls_back_to_classic_witness:
  "square 3 [[2, 0, 1], [1, 3, 2], [0, 1, 4]] \<and> odd (3::nat) \<and> (1::int) < int 3
   \<and> strassen_core [[2, 0, 1], [1, 3, 2], [0, 1, 4]] [[1, 0, 0], [0, 1, 0], [0, 0, 1]] 1
       = matmul_classic [[2, 0, 1], [1, 3, 2], [0, 1, 4]] [[1, 0, 0], [0, 1, 0], [0, 0, 1]]"
proof -
  have sqA: "square 3 [[2, 0, 1], [1, 3, 2], [0, 1, 4]]"
    and sqI: "square 3 [[1, 0, 0], [0, 1, 0], [0, 0, 1]]" by (simp_all add: square_def)
  have o: "odd (3::nat)" and c: "(1::int) < int 3" by simp_all
  from odd_order_falls_back_to_classic[OF sqA sqI o c] sqA o c show ?thesis by blast
qed


section \<open>Shape validation and failures\<close>

text \<open>
  \<open>raises_only E r\<close>: the computation \<open>r\<close> either returns or raises an exception of \<open>E\<close>.
\<close>

definition raises_only :: "error set \<Rightarrow> error + 'a \<Rightarrow> bool" where
  "raises_only E r \<longleftrightarrow> (case r of Inl e \<Rightarrow> e \<in> E | Inr _ \<Rightarrow> True)"

lemma raises_only_Inr [simp]: "raises_only E (Inr x)"
  by (simp add: raises_only_def)

lemma raises_only_Inl [simp]: "raises_only E (Inl e) \<longleftrightarrow> e \<in> E"
  by (simp add: raises_only_def)

lemma raises_only_bnd:
  "raises_only E r \<Longrightarrow> (\<And>x. r = Inr x \<Longrightarrow> raises_only E (f x)) \<Longrightarrow> raises_only E (bnd r f)"
  by (cases r) simp_all

lemma raises_only_mono: "raises_only E r \<Longrightarrow> E \<subseteq> F \<Longrightarrow> raises_only F r"
  by (cases r) auto

lemma raises_only_idx [simp]: "IndexError \<in> E \<Longrightarrow> raises_only E (idx xs i)"
  by (simp add: idx_def)

lemma raises_only_mapM:
  "(\<And>x. x \<in> set xs \<Longrightarrow> raises_only E (f x)) \<Longrightarrow> raises_only E (mapM f xs)"
  by (induction xs) (auto intro!: raises_only_bnd)

lemma raises_only_foldM:
  "(\<And>x s. x \<in> set xs \<Longrightarrow> raises_only E (f s x)) \<Longrightarrow> raises_only E (foldM f xs s)"
  by (induction xs arbitrary: s) (auto intro!: raises_only_bnd)

lemma raises_only_elementwise: "IndexError \<in> E \<Longrightarrow> raises_only E (elementwise f A B)"
  unfolding elementwise_def Let_def
  by (intro raises_only_mapM raises_only_bnd) simp_all

lemma raises_only_add_matrix [simp]: "IndexError \<in> E \<Longrightarrow> raises_only E (add_matrix A B)"
  by (simp add: add_matrix_def raises_only_elementwise)

lemma raises_only_sub_matrix [simp]: "IndexError \<in> E \<Longrightarrow> raises_only E (sub_matrix A B)"
  by (simp add: sub_matrix_def raises_only_elementwise)

lemma raises_only_matmul_classic [simp]: "IndexError \<in> E \<Longrightarrow> raises_only E (matmul_classic A B)"
  unfolding matmul_classic_def Let_def step_i_def step_k_def step_j_def
  by (intro raises_only_foldM raises_only_bnd) simp_all

lemma raises_only_join [simp]: "IndexError \<in> E \<Longrightarrow> raises_only E (join m a b c d)"
  unfolding join_def join_rows_def
  by (intro raises_only_mapM raises_only_bnd) simp_all

lemma raises_only_strassen_core_bm:
  "raises_only {IndexError, RecursionError} (strassen_core_bm A B c)"
proof (induction "length A" arbitrary: A B rule: less_induct)
  case less
  show ?case
    apply (subst strassen_core_bm.simps)
    apply (simp only: Let_def split: if_split)
    apply (intro conjI impI raises_only_bnd)
    apply (simp_all)
    apply (rule less.hyps;
        auto simp add: add_matrix_length sub_matrix_length intro: lower_half_add)+
    done
qed

lemma raises_only_strassen_winograd_core:
  "raises_only {IndexError, RecursionError} (strassen_winograd_core A B c)"
proof (induction "length A" arbitrary: A B rule: less_induct)
  case less
  show ?case
    apply (subst strassen_winograd_core.simps)
    apply (simp only: Let_def split: if_split)
    apply (intro conjI impI raises_only_bnd)
    apply (simp_all)
    apply (rule less.hyps;
        auto simp add: add_matrix_length sub_matrix_length intro: lower_half_add)+
    done
qed

lemma raises_only_strassen_core:
  "raises_only {IndexError, RecursionError} (strassen_core A B c)"
proof (induction "length A" arbitrary: A B rule: less_induct)
  case less
  show ?case
    apply (subst strassen_core.simps)
    apply (simp only: Let_def split: if_split)
    apply (intro conjI impI raises_only_bnd)
    apply (simp_all)
    apply (rule less.hyps;
        auto simp add: add_matrix_length sub_matrix_length intro: lower_half_add)+
    done
qed

lemma raises_only_padded:
  assumes "\<And>X Y. raises_only E (core X Y c)"
  shows "raises_only E (padded core A B c)"
  unfolding padded_def Let_def
  by (auto intro!: raises_only_bnd assms)

lemma raises_only_neq: "raises_only E r \<Longrightarrow> e \<notin> E \<Longrightarrow> r \<noteq> Inl e"
  by (cases r) auto

text \<open>
  Claim C10: the shape validation of the entry points reads only the number of rows of
  \<open>A\<close> and \<open>B\<close> and the lengths of their first rows.  For non-empty \<open>A\<close> the shape
  error (\<^verbatim>\<open>AssertionError\<close> in \<^verbatim>\<open>matrix_benchmark.py\<close>, \<^verbatim>\<open>ValueError\<close> in
  \<^verbatim>\<open>answer.py\<close>) is raised exactly when one of these three numbers differs from
  \<open>len(A)\<close>; so an input whose first row has length \<open>len(A)\<close> and whose later rows
  have another length is accepted without a shape error.
\<close>

theorem shape_check_reads_first_rows_only:
  assumes "A \<noteq> []"
  shows "(matmul_strassen A B cutoff = Inl AssertionError \<longleftrightarrow>
            \<not> (length B = length A \<and> length (A ! 0) = length A \<and> length (B ! 0) = length A))
    \<and> (matmul_strassen_winograd A B cutoff = Inl AssertionError \<longleftrightarrow>
            \<not> (length B = length A \<and> length (A ! 0) = length A \<and> length (B ! 0) = length A))
    \<and> (matmul_strassen_ans A B cutoff = Inl ValueError \<longleftrightarrow>
            \<not> (length B = length A \<and> length (A ! 0) = length A \<and> length (B ! 0) = length A))"
proof -
  have 1: "padded strassen_core_bm A B cutoff \<noteq> Inl AssertionError"
    by (rule raises_only_neq[OF raises_only_padded[where E = "{IndexError, RecursionError}"]])
       (simp_all add: raises_only_strassen_core_bm)
  have 2: "padded strassen_winograd_core A B cutoff \<noteq> Inl AssertionError"
    by (rule raises_only_neq[OF raises_only_padded[where E = "{IndexError, RecursionError}"]])
       (simp_all add: raises_only_strassen_winograd_core)
  have 3: "strassen_core A B cutoff \<noteq> Inl ValueError"
    by (rule raises_only_neq[OF raises_only_strassen_core]) simp
  from assms 1 2 3 show ?thesis
    by (auto simp add: matmul_strassen_def matmul_strassen_winograd_def matmul_strassen_ans_def
        shape_ok_def Let_def)
qed


theorem shape_check_reads_first_rows_only_witness:
  "[[1, 2], [3, 4, 5]] \<noteq> ([] :: matrix)
   \<and> \<not> square 2 [[1, 2], [3, 4, 5]]
   \<and> length ([[1, 2], [3, 4, 5]] ! 0 :: int list) = length ([[1, 2], [3, 4, 5]] :: matrix)
   \<and> length ([[1, 2], [3, 4, 5]] ! 1 :: int list) \<noteq> length ([[1, 2], [3, 4, 5]] :: matrix)
   \<and> matmul_strassen [[1, 2], [3, 4, 5]] [[1, 0], [0, 1]] 64 \<noteq> Inl AssertionError
   \<and> matmul_strassen_winograd [[1, 2], [3, 4, 5]] [[1, 0], [0, 1]] 64 \<noteq> Inl AssertionError
   \<and> matmul_strassen_ans [[1, 2], [3, 4, 5]] [[1, 0], [0, 1]] 64 \<noteq> Inl ValueError"
proof -
  have ne: "[[1, 2], [3, 4, 5]] \<noteq> ([] :: matrix)" by simp
  from shape_check_reads_first_rows_only[OF ne, of "[[1, 0], [0, 1]]" 64]
  show ?thesis by (simp add: square_def)
qed

text \<open>
  Claim C6 says that every non-square operand and every pair of operands of different
  order is rejected with a shape error.  The code does not do so: the ragged matrix
  \<open>[[1, 2], [3, 4, 5]]\<close> passes the check of all three entry points, which return a
  product, and an empty \<open>A\<close> with a non-empty \<open>B\<close> returns the empty matrix before
  the check is reached.
\<close>

theorem shape_error_missed:
  "\<not> square 2 [[1, 2], [3, 4, 5]]
   \<and> matmul_strassen [[1, 2], [3, 4, 5]] [[1, 0], [0, 1]] 64 = Inr [[1, 2], [3, 4]]
   \<and> matmul_strassen_winograd [[1, 2], [3, 4, 5]] [[1, 0], [0, 1]] 64 = Inr [[1, 2], [3, 4]]
   \<and> matmul_strassen_ans [[1, 2], [3, 4, 5]] [[1, 0], [0, 1]] 64 = Inr [[1, 2], [3, 4]]
   \<and> matmul_strassen [] B cutoff = Inr []
   \<and> matmul_strassen_winograd [] B cutoff = Inr []
   \<and> matmul_strassen_ans [] B cutoff = Inr []"
proof -
  have "\<not> square 2 [[1, 2], [3, 4, 5]]
   \<and> matmul_strassen [[1, 2], [3, 4, 5]] [[1, 0], [0, 1]] 64 = Inr [[1, 2], [3, 4]]
   \<and> matmul_strassen_winograd [[1, 2], [3, 4, 5]] [[1, 0], [0, 1]] 64 = Inr [[1, 2], [3, 4]]
   \<and> matmul_strassen_ans [[1, 2], [3, 4, 5]] [[1, 0], [0, 1]] 64 = Inr [[1, 2], [3, 4]]"
    by code_simp
  then show ?thesis
    by (simp add: matmul_strassen_def matmul_strassen_winograd_def matmul_strassen_ans_def)
qed

theorem shape_error_missed_witness:
  "\<not> square 2 [[1, 2], [3, 4, 5]]
   \<and> matmul_strassen [[1, 2], [3, 4, 5]] [[1, 0], [0, 1]] 64 = Inr [[1, 2], [3, 4]]
   \<and> matmul_strassen_winograd [[1, 2], [3, 4, 5]] [[1, 0], [0, 1]] 64 = Inr [[1, 2], [3, 4]]
   \<and> matmul_strassen_ans [[1, 2], [3, 4, 5]] [[1, 0], [0, 1]] 64 = Inr [[1, 2], [3, 4]]
   \<and> matmul_strassen [] [[1]] 64 = Inr []
   \<and> matmul_strassen_winograd [] [[1]] 64 = Inr []
   \<and> matmul_strassen_ans [] [[1]] 64 = Inr []"
  by (rule shape_error_missed)

lemma matmul_classic_Inr_fits_right:
  assumes "matmul_classic A B = Inr C" and "0 < length A"
  shows "fits (length A) B"
proof -
  let ?n = "length A"
  from assms(1) have run: "foldM (step_i A B ?n) [0..<?n] (replicate ?n (replicate ?n 0)) = Inr C"
    by (simp add: matmul_classic_def Let_def)
  from foldM_Inr_all[OF run, of 0] assms(2) obtain u v where "step_i A B ?n u 0 = Inr v" by auto
  then obtain rowA Ci Ci' where inner: "foldM (step_k rowA B ?n) [0..<?n] Ci = Inr Ci'"
    by (auto simp add: step_i_def bnd_eq_Inr)
  have "k < length B \<and> ?n \<le> length (B ! k)" if k: "k < ?n" for k
  proof -
    from foldM_Inr_all[OF inner, of k] k obtain s t where "step_k rowA B ?n s k = Inr t" by auto
    then obtain a where kB: "k < length B" and j: "foldM (step_j a (B ! k)) [0..<?n] s = Inr t"
      by (auto simp add: step_k_def bnd_eq_Inr idx_eq_Inr)
    have "j' < length (B ! k)" if "j' < ?n" for j'
    proof -
      from foldM_Inr_all[OF j, of j'] that obtain s' t' where "step_j a (B ! k) s' j' = Inr t'"
        by auto
      then show ?thesis by (auto simp add: step_j_def bnd_eq_Inr idx_eq_Inr)
    qed
    then have "?n \<le> length (B ! k)" by (meson not_less order_refl)
    with kB show ?thesis by simp
  qed
  then have "\<forall>k<?n. k < length B" "\<forall>k<?n. ?n \<le> length (B ! k)" by simp_all
  with assms(2) show ?thesis
    by (auto simp add: fits_def) (meson not_less order_refl)
qed

lemma matmul_classic_Inl: "matmul_classic A B = Inl e \<Longrightarrow> e = IndexError"
  using raises_only_matmul_classic[of "{IndexError}" A B] by simp

text \<open>
  Claim C7, as amended: \<^verbatim>\<open>matmul_classic\<close> has no check of the orders.  For square \<open>A\<close>
  of order \<open>n\<close> and square \<open>B\<close> of order \<open>m\<close> it raises \<^verbatim>\<open>IndexError\<close> when
  \<open>m < n\<close>, and when \<open>n \<le> m\<close> it returns the product of \<open>A\<close> with the leading
  \<open>n\<close> by \<open>n\<close> block of \<open>B\<close>.
\<close>

theorem matmul_classic_unequal_orders:
  assumes "square n A" and "square m B"
  shows "(m < n \<longrightarrow> matmul_classic A B = Inl IndexError)
    \<and> (n \<le> m \<longrightarrow> (\<exists>C. matmul_classic A B = Inr C \<and> square n C
          \<and> (\<forall>i<n. \<forall>j<n. C ! i ! j = (\<Sum>k<n. A ! i ! k * B ! k ! j))))"
proof (intro conjI impI)
  assume lt: "m < n"
  have len: "length A = n" "length B = m" using assms by (simp_all add: square_def)
  have "matmul_classic A B \<noteq> Inr C" for C
  proof
    assume "matmul_classic A B = Inr C"
    from matmul_classic_Inr_fits_right[OF this] lt len have "fits n B" by simp
    with lt len show False by (simp add: fits_def)
  qed
  then obtain e where "matmul_classic A B = Inl e" by (cases "matmul_classic A B") auto
  with matmul_classic_Inl[OF this] show "matmul_classic A B = Inl IndexError" by simp
next
  assume le: "n \<le> m"
  have len: "length A = n" using assms by (simp add: square_def)
  have "fits n A" using assms(1) by (rule square_fits)
  moreover have "fits n B" using assms(2) le by (auto simp add: square_def fits_def)
  ultimately have "matmul_classic A B =
      Inr (mat n (mmf n (\<lambda>i k. A ! i ! k) (\<lambda>k j. B ! k ! j)))"
    using matmul_classic_fits[of A B] len by simp
  then show "\<exists>C. matmul_classic A B = Inr C \<and> square n C
          \<and> (\<forall>i<n. \<forall>j<n. C ! i ! j = (\<Sum>k<n. A ! i ! k * B ! k ! j))"
    by (simp add: mmf_def)
qed

text \<open>
  The claim C7 as stated fails: on orders 2 and 3 \<^verbatim>\<open>matmul_classic\<close> returns a matrix.
\<close>

theorem matmul_classic_no_dimension_check:
  "square 2 [[1, 2], [3, 4]] \<and> square 3 [[1, 0, 0], [0, 1, 0], [0, 0, 1]]
   \<and> matmul_classic [[1, 2], [3, 4]] [[1, 0, 0], [0, 1, 0], [0, 0, 1]] = Inr [[1, 2], [3, 4]]"
  by (simp add: square_def) code_simp


theorem matmul_classic_unequal_orders_witness:
  "square 3 [[1, 0, 0], [0, 1, 0], [0, 0, 1]] \<and> square 2 [[1, 2], [3, 4]]
   \<and> matmul_classic [[1, 0, 0], [0, 1, 0], [0, 0, 1]] [[1, 2], [3, 4]] = Inl IndexError
   \<and> (\<exists>C. matmul_classic [[1, 2], [3, 4]] [[1, 0, 0], [0, 1, 0], [0, 0, 1]] = Inr C \<and> square 2 C
        \<and> (\<forall>i<2. \<forall>j<2. C ! i ! j =
              (\<Sum>k<2. [[1, 2], [3, 4]] ! i ! k * [[1, 0, 0], [0, 1, 0], [0, 0, 1]] ! k ! j)))"
proof -
  have sq3: "square 3 [[1, 0, 0], [0, 1, 0], [0, 0, 1]]" and sq2: "square 2 [[1, 2], [3, 4]]"
    by (simp_all add: square_def)
  from matmul_classic_unequal_orders[OF sq3 sq2] matmul_classic_unequal_orders[OF sq2 sq3] sq3 sq2
  show ?thesis by simp
qed


section \<open>A store model: lists as mutable objects\<close>

text \<open>
  In Python a matrix is a list object whose elements are references to row objects, and
  \<^verbatim>\<open>Ci[j] += ...\<close> in \<^verbatim>\<open>matmul_classic\<close> updates a row object in place.  To state that
  no operation changes its operands, the operations are written once more over an
  explicit store: a heap is the list of all objects created so far, an address is an
  index into it, and creating an object appends it.  A program takes the heap and
  returns its outcome (a value or an exception) together with the heap it leaves behind;
  an exception does not undo earlier updates.

  Every list display, slice, concatenation, repetition and comprehension of the source
  creates a new list object; \<^verbatim>\<open>Ci[j] += v\<close> is the only statement that updates an existing
  one.  Reading a list of the wrong kind (an integer where a row is expected) raises
  \<^verbatim>\<open>TypeError\<close>; the type \<^verbatim>\<open>Matrix = List[List[int]]\<close> excludes such operands.

  The recursive engines take the number \<open>d\<close> of nested calls that the interpreter still
  allows (Python's recursion limit) and raise \<^verbatim>\<open>RecursionError\<close> when it is used up.
\<close>

datatype obj = Row "int list" | Mat "nat list"

type_synonym heap = "obj list"

type_synonym 'a prog = "heap \<Rightarrow> (error + 'a) \<times> heap"

definition ret :: "'a \<Rightarrow> 'a prog" where
  "ret x h = (Inr x, h)"

definition throw :: "error \<Rightarrow> 'a prog" where
  "throw e h = (Inl e, h)"

definition bindh :: "'a prog \<Rightarrow> ('a \<Rightarrow> 'b prog) \<Rightarrow> 'b prog" where
  "bindh m f h = (case m h of (Inl e, h') \<Rightarrow> (Inl e, h') | (Inr x, h') \<Rightarrow> f x h')"

definition alloc :: "obj \<Rightarrow> nat prog" where
  "alloc ob h = (Inr (length h), h @ [ob])"

definition ints_of :: "nat \<Rightarrow> int list prog" where
  "ints_of a h =
     (if a < length h then (case h ! a of Row xs \<Rightarrow> (Inr xs, h) | Mat rs \<Rightarrow> (Inl TypeError, h))
      else (Inl TypeError, h))"

definition refs_of :: "nat \<Rightarrow> nat list prog" where
  "refs_of a h =
     (if a < length h then (case h ! a of Mat rs \<Rightarrow> (Inr rs, h) | Row xs \<Rightarrow> (Inl TypeError, h))
      else (Inl TypeError, h))"

definition len_h :: "nat \<Rightarrow> nat prog" where
  "len_h a h =
     (if a < length h then (case h ! a of Row xs \<Rightarrow> (Inr (length xs), h) | Mat rs \<Rightarrow> (Inr (length rs), h))
      else (Inl TypeError, h))"

definition get_ref :: "nat \<Rightarrow> nat \<Rightarrow> nat prog" where
  "get_ref a i = bindh (refs_of a) (\<lambda>rs. if i < length rs then ret (rs ! i) else throw IndexError)"

definition get_int :: "nat \<Rightarrow> nat \<Rightarrow> int prog" where
  "get_int a i = bindh (ints_of a) (\<lambda>xs. if i < length xs then ret (xs ! i) else throw IndexError)"

definition set_int :: "nat \<Rightarrow> nat \<Rightarrow> int \<Rightarrow> unit prog" where
  "set_int a i v h =
     (if a < length h then
        (case h ! a of
           Row xs \<Rightarrow> (if i < length xs then (Inr (), h[a := Row (xs[i := v])])
                      else (Inl IndexError, h))
         | Mat rs \<Rightarrow> (Inl TypeError, h))
      else (Inl TypeError, h))"

primrec mapM_h :: "('a \<Rightarrow> 'b prog) \<Rightarrow> 'a list \<Rightarrow> 'b list prog" where
  "mapM_h f [] = ret []"
| "mapM_h f (x # xs) = bindh (f x) (\<lambda>y. bindh (mapM_h f xs) (\<lambda>ys. ret (y # ys)))"

primrec forM_h :: "'a list \<Rightarrow> ('a \<Rightarrow> unit prog) \<Rightarrow> unit prog" where
  "forM_h [] f = ret ()"
| "forM_h (x # xs) f = bindh (f x) (\<lambda>_. forM_h xs f)"

definition repeat_h :: "nat \<Rightarrow> nat \<Rightarrow> nat prog" where
  "repeat_h a k = bindh (ints_of a) (\<lambda>xs. alloc (Row (concat (replicate k xs))))"

definition concat_h :: "nat \<Rightarrow> nat \<Rightarrow> nat prog" where
  "concat_h a b = bindh (ints_of a) (\<lambda>xs. bindh (ints_of b) (\<lambda>ys. alloc (Row (xs @ ys))))"

definition concat_refs_h :: "nat \<Rightarrow> nat \<Rightarrow> nat prog" where
  "concat_refs_h a b = bindh (refs_of a) (\<lambda>r1. bindh (refs_of b) (\<lambda>r2. alloc (Mat (r1 @ r2))))"

definition zeros_h :: "nat \<Rightarrow> nat prog" where
  "zeros_h k = bindh (alloc (Row [0])) (\<lambda>z. repeat_h z k)"

definition matmul_classic_h :: "nat \<Rightarrow> nat \<Rightarrow> nat prog" where
  "matmul_classic_h A B =
     bindh (len_h A) (\<lambda>n.
     bindh (mapM_h (\<lambda>_. zeros_h n) [0..<n]) (\<lambda>rows.
     bindh (alloc (Mat rows)) (\<lambda>C.
     bindh (forM_h [0..<n] (\<lambda>i.
       bindh (get_ref A i) (\<lambda>rowA.
       bindh (get_ref C i) (\<lambda>Ci.
       forM_h [0..<n] (\<lambda>k.
         bindh (get_int rowA k) (\<lambda>aik.
         bindh (get_ref B k) (\<lambda>Bk.
         forM_h [0..<n] (\<lambda>j.
           bindh (get_int Ci j) (\<lambda>c.
           bindh (get_int Bk j) (\<lambda>b.
           set_int Ci j (c + aik * b)))))))))))
     (\<lambda>_. ret C))))"

definition elementwise_h :: "(int \<Rightarrow> int \<Rightarrow> int) \<Rightarrow> nat \<Rightarrow> nat \<Rightarrow> nat prog" where
  "elementwise_h f A B =
     bindh (len_h A) (\<lambda>n.
     bindh (mapM_h (\<lambda>i.
       bindh (mapM_h (\<lambda>j.
         bindh (get_ref A i) (\<lambda>ra. bindh (get_int ra j) (\<lambda>a.
         bindh (get_ref B i) (\<lambda>rb. bindh (get_int rb j) (\<lambda>b. ret (f a b)))))) [0..<n])
       (\<lambda>vals. alloc (Row vals))) [0..<n]) (\<lambda>rows.
     alloc (Mat rows)))"

definition add_matrix_h :: "nat \<Rightarrow> nat \<Rightarrow> nat prog" where
  "add_matrix_h A B = elementwise_h (\<lambda>a b. a + b) A B"

definition sub_matrix_h :: "nat \<Rightarrow> nat \<Rightarrow> nat prog" where
  "sub_matrix_h A B = elementwise_h (\<lambda>a b. a - b) A B"

definition slice_h :: "(nat list \<Rightarrow> nat list) \<Rightarrow> (int list \<Rightarrow> int list) \<Rightarrow> nat \<Rightarrow> nat prog" where
  "slice_h rsl csl A =
     bindh (refs_of A) (\<lambda>rs.
     bindh (alloc (Mat (rsl rs))) (\<lambda>tmp.
     bindh (refs_of tmp) (\<lambda>rs'.
     bindh (mapM_h (\<lambda>r. bindh (ints_of r) (\<lambda>xs. alloc (Row (csl xs)))) rs') (\<lambda>rows.
     alloc (Mat rows)))))"

definition join_rows_h :: "nat \<Rightarrow> nat \<Rightarrow> nat \<Rightarrow> nat prog" where
  "join_rows_h m L R =
     bindh (mapM_h (\<lambda>i. bindh (get_ref L i) (\<lambda>l. bindh (get_ref R i) (\<lambda>r. concat_h l r))) [0..<m])
       (\<lambda>rows. alloc (Mat rows))"

definition join_h :: "nat \<Rightarrow> nat \<Rightarrow> nat \<Rightarrow> nat \<Rightarrow> nat \<Rightarrow> nat prog" where
  "join_h m c11 c12 c21 c22 =
     bindh (join_rows_h m c11 c12) (\<lambda>top.
     bindh (join_rows_h m c21 c22) (\<lambda>bot. concat_refs_h top bot))"

primrec strassen_core_bm_h :: "nat \<Rightarrow> nat \<Rightarrow> nat \<Rightarrow> int \<Rightarrow> nat prog" where
  "strassen_core_bm_h 0 A B cutoff = throw RecursionError"
| "strassen_core_bm_h (Suc d) A B cutoff =
     bindh (len_h A) (\<lambda>n.
     if int n \<le> cutoff then matmul_classic_h A B
     else
       let m = n div 2 in
       bindh (slice_h (take m) (take m) A) (\<lambda>a11. bindh (slice_h (take m) (drop m) A) (\<lambda>a12.
       bindh (slice_h (drop m) (take m) A) (\<lambda>a21. bindh (slice_h (drop m) (drop m) A) (\<lambda>a22.
       bindh (slice_h (take m) (take m) B) (\<lambda>b11. bindh (slice_h (take m) (drop m) B) (\<lambda>b12.
       bindh (slice_h (drop m) (take m) B) (\<lambda>b21. bindh (slice_h (drop m) (drop m) B) (\<lambda>b22.
       bindh (add_matrix_h a11 a22) (\<lambda>x1. bindh (add_matrix_h b11 b22) (\<lambda>y1.
       bindh (strassen_core_bm_h d x1 y1 cutoff) (\<lambda>M1.
       bindh (add_matrix_h a21 a22) (\<lambda>x2.
       bindh (strassen_core_bm_h d x2 b11 cutoff) (\<lambda>M2.
       bindh (sub_matrix_h b12 b22) (\<lambda>y3.
       bindh (strassen_core_bm_h d a11 y3 cutoff) (\<lambda>M3.
       bindh (sub_matrix_h b21 b11) (\<lambda>y4.
       bindh (strassen_core_bm_h d a22 y4 cutoff) (\<lambda>M4.
       bindh (add_matrix_h a11 a12) (\<lambda>x5.
       bindh (strassen_core_bm_h d x5 b22 cutoff) (\<lambda>M5.
       bindh (sub_matrix_h a21 a11) (\<lambda>x6. bindh (add_matrix_h b11 b12) (\<lambda>y6.
       bindh (strassen_core_bm_h d x6 y6 cutoff) (\<lambda>M6.
       bindh (sub_matrix_h a12 a22) (\<lambda>x7. bindh (add_matrix_h b21 b22) (\<lambda>y7.
       bindh (strassen_core_bm_h d x7 y7 cutoff) (\<lambda>M7.
       bindh (add_matrix_h M1 M4) (\<lambda>t1. bindh (add_matrix_h t1 M7) (\<lambda>t2.
       bindh (sub_matrix_h t2 M5) (\<lambda>c11.
       bindh (add_matrix_h M3 M5) (\<lambda>c12.
       bindh (add_matrix_h M2 M4) (\<lambda>c21.
       bindh (add_matrix_h M1 M3) (\<lambda>t3. bindh (sub_matrix_h t3 M2) (\<lambda>t4.
       bindh (add_matrix_h t4 M6) (\<lambda>c22.
       join_h m c11 c12 c21 c22))))))))))))))))))))))))))))))))))"

definition store :: "matrix \<Rightarrow> nat prog" where
  "store M = bindh (mapM_h (\<lambda>r. alloc (Row r)) M) (\<lambda>rows. alloc (Mat rows))"

definition mval :: "heap \<Rightarrow> nat \<Rightarrow> matrix" where
  "mval h a = (case h ! a of Mat rs \<Rightarrow> map (\<lambda>r. case h ! r of Row xs \<Rightarrow> xs | Mat _ \<Rightarrow> []) rs | Row _ \<Rightarrow> [])"


subsection \<open>What a call may change\<close>

text \<open>
  \<open>reads p\<close>: the program leaves the heap as it is.  \<open>keeps p\<close>: the heap before the
  call is a prefix of the heap after it, so every object that existed is unchanged and
  new objects were only appended.  \<open>builds p\<close>: moreover a returned address is that of a
  new list object whose elements are new row objects.
\<close>

definition reads :: "'a prog \<Rightarrow> bool" where
  "reads p \<longleftrightarrow> (\<forall>h. snd (p h) = h)"

definition keeps :: "'a prog \<Rightarrow> bool" where
  "keeps p \<longleftrightarrow> (\<forall>h. prefix h (snd (p h)))"

definition fresh_row :: "nat \<Rightarrow> heap \<Rightarrow> nat \<Rightarrow> bool" where
  "fresh_row l h r \<longleftrightarrow> l \<le> r \<and> r < length h \<and> (\<exists>xs. h ! r = Row xs)"

definition fresh :: "nat \<Rightarrow> heap \<Rightarrow> nat \<Rightarrow> bool" where
  "fresh l h C \<longleftrightarrow> l \<le> C \<and> C < length h \<and>
     (\<exists>rows. h ! C = Mat rows \<and> (\<forall>r \<in> set rows. fresh_row l h r))"

definition builds_row :: "nat prog \<Rightarrow> bool" where
  "builds_row p \<longleftrightarrow>
     (\<forall>h. prefix h (snd (p h)) \<and> (\<forall>r. fst (p h) = Inr r \<longrightarrow> fresh_row (length h) (snd (p h)) r))"

definition builds_rows :: "nat list prog \<Rightarrow> bool" where
  "builds_rows p \<longleftrightarrow>
     (\<forall>h. prefix h (snd (p h)) \<and>
        (\<forall>rs. fst (p h) = Inr rs \<longrightarrow> (\<forall>r \<in> set rs. fresh_row (length h) (snd (p h)) r)))"

definition builds :: "nat prog \<Rightarrow> bool" where
  "builds p \<longleftrightarrow>
     (\<forall>h. prefix h (snd (p h)) \<and> (\<forall>C. fst (p h) = Inr C \<longrightarrow> fresh (length h) (snd (p h)) C))"

lemma bindh_Inl: "m h = (Inl e, h') \<Longrightarrow> bindh m f h = (Inl e, h')"
  by (simp add: bindh_def)

lemma bindh_Inr: "m h = (Inr x, h') \<Longrightarrow> bindh m f h = f x h'"
  by (simp add: bindh_def)

lemma bindh_cases:
  obtains e h' where "m h = (Inl e, h')" "bindh m f h = (Inl e, h')"
  | x h' where "m h = (Inr x, h')" "bindh m f h = f x h'"
proof (cases "m h")
  case (Pair r h')
  then show ?thesis
    by (cases r) (auto simp add: bindh_def intro: that)
qed

lemma reads_ret [simp]: "reads (ret x)"
  by (simp add: reads_def ret_def)

lemma reads_throw [simp]: "reads (throw e)"
  by (simp add: reads_def throw_def)

lemma reads_ints_of [simp]: "reads (ints_of a)"
  by (simp add: reads_def ints_of_def split: obj.splits)

lemma reads_refs_of [simp]: "reads (refs_of a)"
  by (simp add: reads_def refs_of_def split: obj.splits)

lemma reads_len_h [simp]: "reads (len_h a)"
  by (simp add: reads_def len_h_def split: obj.splits)

lemma reads_bindh: "reads m \<Longrightarrow> (\<And>x. reads (f x)) \<Longrightarrow> reads (bindh m f)"
  unfolding reads_def
proof
  fix h assume m: "\<forall>h. snd (m h) = h" and f: "\<And>x. \<forall>h. snd (f x h) = h"
  show "snd (bindh m f h) = h"
  proof (cases rule: bindh_cases[of m h f])
    case (1 e h')
    with m[rule_format, of h] show ?thesis by simp
  next
    case (2 x h')
    with m[rule_format, of h] f[of x, rule_format, of h] show ?thesis by simp
  qed
qed

lemma reads_if: "(c \<Longrightarrow> reads p) \<Longrightarrow> (\<not> c \<Longrightarrow> reads q) \<Longrightarrow> reads (if c then p else q)"
  by simp

lemma reads_get_ref [simp]: "reads (get_ref a i)"
  unfolding get_ref_def by (intro reads_bindh reads_if) simp_all

lemma reads_get_int [simp]: "reads (get_int a i)"
  unfolding get_int_def by (intro reads_bindh reads_if) simp_all

lemma reads_mapM_h: "(\<And>x. reads (f x)) \<Longrightarrow> reads (mapM_h f xs)"
  by (induction xs) (auto intro!: reads_bindh)

lemma keeps_reads: "reads p \<Longrightarrow> keeps p"
  by (simp add: reads_def keeps_def)

lemma keeps_bindh: "keeps m \<Longrightarrow> (\<And>x. keeps (f x)) \<Longrightarrow> keeps (bindh m f)"
  unfolding keeps_def
proof
  fix h assume m: "\<forall>h. prefix h (snd (m h))" and f: "\<And>x. \<forall>h. prefix h (snd (f x h))"
  show "prefix h (snd (bindh m f h))"
  proof (cases rule: bindh_cases[of m h f])
    case (1 e h')
    with m[rule_format, of h] show ?thesis by simp
  next
    case (2 x h')
    with m[rule_format, of h] f[of x, rule_format, of h'] show ?thesis
      by (auto intro: prefix_order.trans)
  qed
qed

lemma keeps_if: "(c \<Longrightarrow> keeps p) \<Longrightarrow> (\<not> c \<Longrightarrow> keeps q) \<Longrightarrow> keeps (if c then p else q)"
  by simp

lemma keeps_alloc [simp]: "keeps (alloc ob)"
  by (simp add: keeps_def alloc_def)

lemma keeps_ret [simp]: "keeps (ret x)"
  by (simp add: keeps_reads)

lemma keeps_throw [simp]: "keeps (throw e)"
  by (simp add: keeps_reads)

lemma keeps_mapM_h: "(\<And>x. keeps (f x)) \<Longrightarrow> keeps (mapM_h f xs)"
  by (induction xs) (auto intro!: keeps_bindh)

lemma fresh_row_mono:
  "fresh_row l h r \<Longrightarrow> l' \<le> l \<Longrightarrow> prefix h h' \<Longrightarrow> fresh_row l' h' r"
  by (auto simp add: fresh_row_def prefix_def nth_append)

lemma fresh_mono: "fresh l h C \<Longrightarrow> l' \<le> l \<Longrightarrow> fresh l' h C"
  by (fastforce simp add: fresh_def fresh_row_def)

lemma builds_row_keeps: "builds_row p \<Longrightarrow> keeps p"
  by (simp add: builds_row_def keeps_def)

lemma builds_rows_keeps: "builds_rows p \<Longrightarrow> keeps p"
  by (simp add: builds_rows_def keeps_def)

lemma builds_keeps: "builds p \<Longrightarrow> keeps p"
  by (simp add: builds_def keeps_def)

lemma builds_row_alloc [simp]: "builds_row (alloc (Row xs))"
  by (simp add: builds_row_def alloc_def fresh_row_def)

lemma builds_row_bindh:
  assumes "keeps m" and "\<And>x. builds_row (f x)"
  shows "builds_row (bindh m f)"
  unfolding builds_row_def
proof
  fix h
  show "prefix h (snd (bindh m f h)) \<and>
        (\<forall>r. fst (bindh m f h) = Inr r \<longrightarrow> fresh_row (length h) (snd (bindh m f h)) r)"
  proof (cases rule: bindh_cases[of m h f])
    case (1 e h')
    with assms(1) show ?thesis by (auto simp add: keeps_def dest: spec[of _ h])
  next
    case (2 x h')
    from assms(1) 2(1) have p1: "prefix h h'" by (auto simp add: keeps_def dest: spec[of _ h])
    from assms(2)[of x] have p2: "prefix h' (snd (f x h'))"
      and fr: "\<And>r. fst (f x h') = Inr r \<Longrightarrow> fresh_row (length h') (snd (f x h')) r"
      by (auto simp add: builds_row_def)
    from p1 have "length h \<le> length h'" by (rule prefix_length_le)
    with p1 p2 fr 2(2) show ?thesis
      by (auto intro: prefix_order.trans fresh_row_mono[OF _ _ prefix_order.refl])
  qed
qed

lemma builds_bindh:
  assumes "keeps m" and "\<And>x. builds (f x)"
  shows "builds (bindh m f)"
  unfolding builds_def
proof
  fix h
  show "prefix h (snd (bindh m f h)) \<and>
        (\<forall>C. fst (bindh m f h) = Inr C \<longrightarrow> fresh (length h) (snd (bindh m f h)) C)"
  proof (cases rule: bindh_cases[of m h f])
    case (1 e h')
    with assms(1) show ?thesis by (auto simp add: keeps_def dest: spec[of _ h])
  next
    case (2 x h')
    from assms(1) 2(1) have p1: "prefix h h'" by (auto simp add: keeps_def dest: spec[of _ h])
    from assms(2)[of x] have p2: "prefix h' (snd (f x h'))"
      and fr: "\<And>C. fst (f x h') = Inr C \<Longrightarrow> fresh (length h') (snd (f x h')) C"
      by (auto simp add: builds_def)
    from p1 have "length h \<le> length h'" by (rule prefix_length_le)
    with p1 p2 fr 2(2) show ?thesis
      by (auto intro: prefix_order.trans fresh_mono)
  qed
qed

lemma builds_if: "(c \<Longrightarrow> builds p) \<Longrightarrow> (\<not> c \<Longrightarrow> builds q) \<Longrightarrow> builds (if c then p else q)"
  by simp

lemma builds_throw [simp]: "builds (throw e)"
  by (simp add: builds_def throw_def)

lemma builds_rows_mapM_h:
  assumes "\<And>x. builds_row (f x)"
  shows "builds_rows (mapM_h f xs)"
proof (induction xs)
  case Nil
  show ?case by (simp add: builds_rows_def ret_def)
next
  case (Cons x xs)
  show ?case
    unfolding builds_rows_def
  proof
    fix h
    obtain r1 h1 where fx: "f x h = (r1, h1)" by (cases "f x h")
    from assms[of x] fx have p1: "prefix h h1"
      and f1: "\<And>r. r1 = Inr r \<Longrightarrow> fresh_row (length h) h1 r"
      by (auto simp add: builds_row_def dest: spec[of _ h])
    show "prefix h (snd (mapM_h f (x # xs) h)) \<and>
        (\<forall>rs. fst (mapM_h f (x # xs) h) = Inr rs \<longrightarrow>
           (\<forall>r\<in>set rs. fresh_row (length h) (snd (mapM_h f (x # xs) h)) r))"
    proof (cases r1)
      case (Inl e)
      with fx p1 show ?thesis by (simp add: bindh_def)
    next
      case (Inr r)
      obtain r2 h2 where rest: "mapM_h f xs h1 = (r2, h2)" by (cases "mapM_h f xs h1")
      from Cons rest have p2: "prefix h1 h2"
        and f2: "\<And>rs. r2 = Inr rs \<Longrightarrow> \<forall>r\<in>set rs. fresh_row (length h1) h2 r"
        by (auto simp add: builds_rows_def dest: spec[of _ h1])
      from p1 have le: "length h \<le> length h1" by (rule prefix_length_le)
      from p1 p2 have p: "prefix h h2" by (rule prefix_order.trans)
      show ?thesis
      proof (cases r2)
        case (Inl e)
        with fx Inr rest p show ?thesis by (simp add: bindh_def)
      next
        case rs: (Inr rs)
        have "fresh_row (length h) h2 r" using f1[OF Inr] p2 by (rule fresh_row_mono[OF _ order_refl])
        moreover have "\<forall>r'\<in>set rs. fresh_row (length h) h2 r'"
          using f2[OF rs] le by (auto intro: fresh_row_mono[OF _ _ prefix_order.refl])
        ultimately show ?thesis using fx Inr rest rs p by (simp add: bindh_def ret_def)
      qed
    qed
  qed
qed

lemma builds_rows_then_mat:
  assumes "builds_rows p"
  shows "builds (bindh p (\<lambda>rows. alloc (Mat rows)))"
  unfolding builds_def
proof
  fix h
  obtain r1 h1 where ph: "p h = (r1, h1)" by (cases "p h")
  from assms ph have p1: "prefix h h1"
    and f1: "\<And>rs. r1 = Inr rs \<Longrightarrow> \<forall>r\<in>set rs. fresh_row (length h) h1 r"
    by (auto simp add: builds_rows_def dest: spec[of _ h])
  show "prefix h (snd (bindh p (\<lambda>rows. alloc (Mat rows)) h)) \<and>
        (\<forall>C. fst (bindh p (\<lambda>rows. alloc (Mat rows)) h) = Inr C \<longrightarrow>
           fresh (length h) (snd (bindh p (\<lambda>rows. alloc (Mat rows)) h)) C)"
  proof (cases r1)
    case (Inl e)
    with ph p1 show ?thesis by (simp add: bindh_def)
  next
    case (Inr rs)
    from p1 have le: "length h \<le> length h1" by (rule prefix_length_le)
    have "\<forall>r\<in>set rs. fresh_row (length h) (h1 @ [Mat rs]) r"
      using f1[OF Inr] by (auto intro: fresh_row_mono[OF _ order_refl])
    with ph Inr p1 le show ?thesis
      by (auto simp add: bindh_def alloc_def fresh_def intro: prefix_order.trans)
  qed
qed


lemma keeps_read_primitives [simp]:
  "keeps (ints_of a)" "keeps (refs_of a)" "keeps (len_h a)" "keeps (get_ref a i)"
  "keeps (get_int a i)"
  by (simp_all add: keeps_reads)

lemma builds_row_repeat_h [simp]: "builds_row (repeat_h a k)"
  unfolding repeat_h_def by (intro builds_row_bindh) simp_all

lemma builds_row_concat_h [simp]: "builds_row (concat_h a b)"
  unfolding concat_h_def by (intro builds_row_bindh) simp_all

lemma builds_row_zeros_h [simp]: "builds_row (zeros_h k)"
  unfolding zeros_h_def by (intro builds_row_bindh) simp_all

lemma builds_elementwise_h: "builds (elementwise_h f A B)"
  unfolding elementwise_h_def
  apply (rule builds_bindh)
   apply simp
  apply (rule builds_rows_then_mat)
  apply (rule builds_rows_mapM_h)
  apply (rule builds_row_bindh)
   apply (rule keeps_reads)
   apply (intro reads_mapM_h reads_bindh; simp)
  apply simp
  done

lemma builds_add_matrix_h [simp]: "builds (add_matrix_h A B)"
  by (simp add: add_matrix_h_def builds_elementwise_h)

lemma builds_sub_matrix_h [simp]: "builds (sub_matrix_h A B)"
  by (simp add: sub_matrix_h_def builds_elementwise_h)

lemma builds_slice_h [simp]: "builds (slice_h rsl csl A)"
  unfolding slice_h_def
  apply (rule builds_bindh, simp)
  apply (rule builds_bindh, simp)
  apply (rule builds_bindh, simp)
  apply (rule builds_rows_then_mat)
  apply (rule builds_rows_mapM_h)
  apply (rule builds_row_bindh; simp)
  done

lemma builds_join_rows_h [simp]: "builds (join_rows_h m L R)"
  unfolding join_rows_h_def
  apply (rule builds_rows_then_mat)
  apply (rule builds_rows_mapM_h)
  apply (intro builds_row_bindh; simp)
  done

lemma fresh_prefix:
  assumes "fresh l h C" and "prefix h h'"
  shows "fresh l h' C"
proof -
  from assms(1) obtain rows where C: "l \<le> C" "C < length h" "h ! C = Mat rows"
    and rows: "\<forall>r\<in>set rows. fresh_row l h r"
    by (auto simp add: fresh_def)
  from assms(2) obtain zs where h': "h' = h @ zs" by (auto simp add: prefix_def)
  from rows assms(2) have "\<forall>r\<in>set rows. fresh_row l h' r"
    by (auto intro: fresh_row_mono[OF _ order_refl])
  with C h' show ?thesis by (auto simp add: fresh_def nth_append)
qed

lemma builds_concat_refs:
  assumes "builds p" and "\<And>top. builds (q top)"
  shows "builds (bindh p (\<lambda>top. bindh (q top) (\<lambda>bot. concat_refs_h top bot)))"
  unfolding builds_def
proof
  fix h
  let ?prog = "bindh p (\<lambda>top. bindh (q top) (\<lambda>bot. concat_refs_h top bot))"
  obtain r1 h1 where ph: "p h = (r1, h1)" by (cases "p h")
  from assms(1) ph have p1: "prefix h h1"
    and f1: "\<And>top. r1 = Inr top \<Longrightarrow> fresh (length h) h1 top"
    by (auto simp add: builds_def dest: spec[of _ h])
  show "prefix h (snd (?prog h)) \<and> (\<forall>C. fst (?prog h) = Inr C \<longrightarrow> fresh (length h) (snd (?prog h)) C)"
  proof (cases r1)
    case (Inl e)
    with ph p1 show ?thesis by (simp add: bindh_def)
  next
    case top: (Inr top)
    obtain r2 h2 where qh: "q top h1 = (r2, h2)" by (cases "q top h1")
    from assms(2)[of top] qh have p2: "prefix h1 h2"
      and f2: "\<And>bot. r2 = Inr bot \<Longrightarrow> fresh (length h1) h2 bot"
      by (auto simp add: builds_def dest: spec[of _ h1])
    from p1 p2 have p: "prefix h h2" by (rule prefix_order.trans)
    from p1 have le: "length h \<le> length h1" by (rule prefix_length_le)
    show ?thesis
    proof (cases r2)
      case (Inl e)
      with ph top qh p show ?thesis by (simp add: bindh_def)
    next
      case bot: (Inr bot)
      from f1[OF top] p2 have ft: "fresh (length h) h2 top" by (rule fresh_prefix)
      from f2[OF bot] le have fb: "fresh (length h) h2 bot" by (rule fresh_mono)
      from ft obtain rt where rt: "top < length h2" "h2 ! top = Mat rt"
        "\<forall>r\<in>set rt. fresh_row (length h) h2 r" by (auto simp add: fresh_def)
      from fb obtain rb where rb: "bot < length h2" "h2 ! bot = Mat rb"
        "\<forall>r\<in>set rb. fresh_row (length h) h2 r" by (auto simp add: fresh_def)
      have run: "concat_refs_h top bot h2 = (Inr (length h2), h2 @ [Mat (rt @ rb)])"
        using rt rb by (simp add: concat_refs_h_def bindh_def refs_of_def alloc_def)
      have "\<forall>r\<in>set (rt @ rb). fresh_row (length h) (h2 @ [Mat (rt @ rb)]) r"
        using rt(3) rb(3) by (auto intro: fresh_row_mono[OF _ order_refl])
      moreover have "length h \<le> length h2" using p by (rule prefix_length_le)
      ultimately have "fresh (length h) (h2 @ [Mat (rt @ rb)]) (length h2)"
        by (simp add: fresh_def)
      with ph top qh bot run p show ?thesis
        by (auto simp add: bindh_def intro: prefix_order.trans)
    qed
  qed
qed

lemma builds_join_h [simp]: "builds (join_h m c11 c12 c21 c22)"
  unfolding join_h_def by (rule builds_concat_refs) simp_all


definition inv_post :: "(heap \<Rightarrow> bool) \<Rightarrow> 'a prog \<Rightarrow> ('a \<Rightarrow> bool) \<Rightarrow> bool" where
  "inv_post I p Q \<longleftrightarrow> (\<forall>h. I h \<longrightarrow> I (snd (p h)) \<and> (\<forall>x. fst (p h) = Inr x \<longrightarrow> Q x))"

lemma inv_post_reads: "reads p \<Longrightarrow> inv_post I p (\<lambda>_. True)"
  by (simp add: inv_post_def reads_def)

lemma inv_post_bindh:
  assumes "inv_post I m P" and "\<And>x. P x \<Longrightarrow> inv_post I (f x) Q"
  shows "inv_post I (bindh m f) Q"
  unfolding inv_post_def
proof (intro allI impI)
  fix h assume I: "I h"
  show "I (snd (bindh m f h)) \<and> (\<forall>x. fst (bindh m f h) = Inr x \<longrightarrow> Q x)"
  proof (cases rule: bindh_cases[of m h f])
    case (1 e h')
    with assms(1) I show ?thesis by (auto simp add: inv_post_def dest: spec[of _ h])
  next
    case (2 x h')
    with assms(1) I have "I h'" "P x" by (auto simp add: inv_post_def dest: spec[of _ h])
    with assms(2)[of x] 2(2) show ?thesis by (auto simp add: inv_post_def)
  qed
qed

lemma inv_post_forM_h:
  assumes "\<And>x. inv_post I (f x) (\<lambda>_. True)"
  shows "inv_post I (forM_h xs f) (\<lambda>_. True)"
proof (induction xs)
  case Nil
  show ?case by (simp add: inv_post_reads)
next
  case (Cons x xs)
  show ?case by (simp, rule inv_post_bindh[OF assms]) (rule Cons)
qed

text \<open>
  The heaps reachable inside the loops of the classical product: the heap \<open>h0\<close> at the
  call is still a prefix, and the accumulator \<open>C\<close> is a list of row objects that were
  all created after the call.
\<close>

definition owns :: "heap \<Rightarrow> nat \<Rightarrow> nat list \<Rightarrow> heap \<Rightarrow> bool" where
  "owns h0 C rows h \<longleftrightarrow>
     prefix h0 h \<and> length h0 \<le> C \<and> C < length h \<and> h ! C = Mat rows \<and>
     (\<forall>r \<in> set rows. fresh_row (length h0) h r)"

lemma owns_get_ref: "inv_post (owns h0 C rows) (get_ref C i) (\<lambda>r. r \<in> set rows)"
  by (auto simp add: inv_post_def owns_def get_ref_def refs_of_def bindh_def ret_def throw_def)

lemma owns_set_int:
  assumes "r \<in> set rows"
  shows "inv_post (owns h0 C rows) (set_int r j v) (\<lambda>_. True)"
  unfolding inv_post_def
proof (intro allI impI conjI)
  fix h assume o: "owns h0 C rows h"
  then obtain zs where h: "h = h0 @ zs" by (auto simp add: owns_def prefix_def)
  from o assms have r: "length h0 \<le> r" "r < length h" by (auto simp add: owns_def fresh_row_def)
  show "owns h0 C rows (snd (set_int r j v h))"
  proof (cases "\<exists>xs. h ! r = Row xs \<and> j < length xs")
    case False
    then have "snd (set_int r j v h) = h"
      by (auto simp add: set_int_def split: obj.splits)
    with o show ?thesis by simp
  next
    case True
    then obtain xs where xs: "h ! r = Row xs" "j < length xs" by blast
    with r have upd: "snd (set_int r j v h) = h[r := Row (xs[j := v])]"
      by (simp add: set_int_def)
    from o xs have neq: "r \<noteq> C" by (auto simp add: owns_def)
    have "prefix h0 (h[r := Row (xs[j := v])])"
      using h r by (simp add: list_update_append prefix_def)
    moreover have "\<forall>r'\<in>set rows. fresh_row (length h0) (h[r := Row (xs[j := v])]) r'"
    proof
      fix r' assume "r' \<in> set rows"
      with o have fr: "length h0 \<le> r'" "r' < length h" "\<exists>ys. h ! r' = Row ys"
        by (auto simp add: owns_def fresh_row_def)
      then show "fresh_row (length h0) (h[r := Row (xs[j := v])]) r'"
        by (cases "r' = r") (simp_all add: fresh_row_def)
    qed
    ultimately show ?thesis
      using o neq unfolding upd by (simp add: owns_def)
  qed
qed simp

lemma owns_loops:
  "inv_post (owns h0 C rows)
     (forM_h [0..<n] (\<lambda>i.
       bindh (get_ref A i) (\<lambda>rowA.
       bindh (get_ref C i) (\<lambda>Ci.
       forM_h [0..<n] (\<lambda>k.
         bindh (get_int rowA k) (\<lambda>aik.
         bindh (get_ref B k) (\<lambda>Bk.
         forM_h [0..<n] (\<lambda>j.
           bindh (get_int Ci j) (\<lambda>c.
           bindh (get_int Bk j) (\<lambda>b.
           set_int Ci j (c + aik * b)))))))))))
     (\<lambda>_. True)"
  apply (rule inv_post_forM_h)
  apply (rule inv_post_bindh[OF inv_post_reads], simp)
  apply (rule inv_post_bindh[OF owns_get_ref])
  apply (rule inv_post_forM_h)
  apply (rule inv_post_bindh[OF inv_post_reads], simp)
  apply (rule inv_post_bindh[OF inv_post_reads], simp)
  apply (rule inv_post_forM_h)
  apply (rule inv_post_bindh[OF inv_post_reads], simp)
  apply (rule inv_post_bindh[OF inv_post_reads], simp)
  apply (erule owns_set_int)
  done

lemma builds_matmul_classic_h [simp]: "builds (matmul_classic_h A B)"
  unfolding builds_def
proof
  fix h
  let ?res = "matmul_classic_h A B h"
  show "prefix h (snd ?res) \<and> (\<forall>C. fst ?res = Inr C \<longrightarrow> fresh (length h) (snd ?res) C)"
  proof (cases "len_h A h")
    case (Pair rn hn)
    have hn: "hn = h" using Pair reads_len_h[of A] by (auto simp add: reads_def dest: spec[of _ h])
    show ?thesis
    proof (cases rn)
      case (Inl e)
      with Pair hn show ?thesis by (simp add: matmul_classic_h_def bindh_def)
    next
      case n: (Inr n)
      obtain r1 h1 where al: "mapM_h (\<lambda>_. zeros_h n) [0..<n] h = (r1, h1)"
        by (cases "mapM_h (\<lambda>_. zeros_h n) [0..<n] h")
      have "builds_rows (mapM_h (\<lambda>_. zeros_h n) [0..<n])"
        by (rule builds_rows_mapM_h) simp
      with al have p1: "prefix h h1"
        and f1: "\<And>rows. r1 = Inr rows \<Longrightarrow> \<forall>r\<in>set rows. fresh_row (length h) h1 r"
        by (auto simp add: builds_rows_def dest: spec[of _ h])
      show ?thesis
      proof (cases r1)
        case (Inl e)
        with Pair hn n al p1 show ?thesis by (simp add: matmul_classic_h_def bindh_def)
      next
        case rows: (Inr rows)
        let ?C = "length h1"
        let ?h2 = "h1 @ [Mat rows]"
        let ?loops = "forM_h [0..<n] (\<lambda>i.
           bindh (get_ref A i) (\<lambda>rowA.
           bindh (get_ref ?C i) (\<lambda>Ci.
           forM_h [0..<n] (\<lambda>k.
             bindh (get_int rowA k) (\<lambda>aik.
             bindh (get_ref B k) (\<lambda>Bk.
             forM_h [0..<n] (\<lambda>j.
               bindh (get_int Ci j) (\<lambda>c.
               bindh (get_int Bk j) (\<lambda>b.
               set_int Ci j (c + aik * b))))))))))"
        have le: "length h \<le> length h1" using p1 by (rule prefix_length_le)
        have "\<forall>r\<in>set rows. fresh_row (length h) ?h2 r"
          using f1[OF rows] by (auto intro: fresh_row_mono[OF _ order_refl])
        with p1 le have o2: "owns h ?C rows ?h2"
          by (auto simp add: owns_def intro: prefix_order.trans)
        obtain r3 h3 where lp: "?loops ?h2 = (r3, h3)" by (cases "?loops ?h2")
        from owns_loops[of h ?C rows n A B] o2 lp have o3: "owns h ?C rows h3"
          by (auto simp add: inv_post_def dest: spec[of _ ?h2])
        then have fr: "fresh (length h) h3 ?C" and p3: "prefix h h3"
          by (auto simp add: owns_def fresh_def)
        have "?res = (case r3 of Inl e \<Rightarrow> (Inl e, h3) | Inr u \<Rightarrow> (Inr ?C, h3))"
          using Pair hn n al rows lp
          by (simp add: matmul_classic_h_def bindh_def alloc_def ret_def split: sum.splits)
        with fr p3 show ?thesis by (auto split: sum.splits)
      qed
    qed
  qed
qed

primrec strassen_winograd_core_h :: "nat \<Rightarrow> nat \<Rightarrow> nat \<Rightarrow> int \<Rightarrow> nat prog" where
  "strassen_winograd_core_h 0 A B cutoff = throw RecursionError"
| "strassen_winograd_core_h (Suc d) A B cutoff =
     bindh (len_h A) (\<lambda>n.
     if int n \<le> cutoff then matmul_classic_h A B
     else 
       let m = n div 2 in
       bindh (slice_h (take m) (take m) A) (\<lambda>a11. bindh (slice_h (take m) (drop m) A) (\<lambda>a12.
       bindh (slice_h (drop m) (take m) A) (\<lambda>a21. bindh (slice_h (drop m) (drop m) A) (\<lambda>a22.
       bindh (slice_h (take m) (take m) B) (\<lambda>b11. bindh (slice_h (take m) (drop m) B) (\<lambda>b12.
       bindh (slice_h (drop m) (take m) B) (\<lambda>b21. bindh (slice_h (drop m) (drop m) B) (\<lambda>b22.
       bindh (sub_matrix_h b12 b22) (\<lambda>S1. bindh (add_matrix_h a11 a12) (\<lambda>S2.
       bindh (add_matrix_h a21 a22) (\<lambda>S3. bindh (sub_matrix_h b21 b11) (\<lambda>S4.
       bindh (add_matrix_h a11 a22) (\<lambda>S5. bindh (add_matrix_h b11 b22) (\<lambda>S6.
       bindh (sub_matrix_h a12 a22) (\<lambda>S7. bindh (add_matrix_h b21 b22) (\<lambda>S8.
       bindh (sub_matrix_h a11 a21) (\<lambda>S9. bindh (add_matrix_h b11 b12) (\<lambda>S10.
       bindh (strassen_winograd_core_h d a11 S1 cutoff) (\<lambda>P1.
       bindh (strassen_winograd_core_h d S2 b22 cutoff) (\<lambda>P2.
       bindh (strassen_winograd_core_h d S3 b11 cutoff) (\<lambda>P3.
       bindh (strassen_winograd_core_h d a22 S4 cutoff) (\<lambda>P4.
       bindh (strassen_winograd_core_h d S5 S6 cutoff) (\<lambda>P5.
       bindh (strassen_winograd_core_h d S7 S8 cutoff) (\<lambda>P6.
       bindh (strassen_winograd_core_h d S9 S10 cutoff) (\<lambda>P7.
       bindh (add_matrix_h P5 P4) (\<lambda>t1. bindh (sub_matrix_h t1 P2) (\<lambda>t2.
       bindh (add_matrix_h t2 P6) (\<lambda>C11.
       bindh (add_matrix_h P1 P2) (\<lambda>C12.
       bindh (add_matrix_h P3 P4) (\<lambda>C21.
       bindh (add_matrix_h P5 P1) (\<lambda>t3. bindh (sub_matrix_h t3 P3) (\<lambda>t4.
       bindh (sub_matrix_h t4 P7) (\<lambda>C22.
       join_h m C11 C12 C21 C22))))))))))))))))))))))))))))))))))"

primrec strassen_core_h :: "nat \<Rightarrow> nat \<Rightarrow> nat \<Rightarrow> int \<Rightarrow> nat prog" where
  "strassen_core_h 0 A B cutoff = throw RecursionError"
| "strassen_core_h (Suc d) A B cutoff =
     bindh (len_h A) (\<lambda>n.
     if int n \<le> cutoff then matmul_classic_h A B
     else if n mod 2 = 1 then matmul_classic_h A B else
       let m = n div 2 in
       bindh (slice_h (take m) (take m) A) (\<lambda>a11. bindh (slice_h (take m) (drop m) A) (\<lambda>a12.
       bindh (slice_h (drop m) (take m) A) (\<lambda>a21. bindh (slice_h (drop m) (drop m) A) (\<lambda>a22.
       bindh (slice_h (take m) (take m) B) (\<lambda>b11. bindh (slice_h (take m) (drop m) B) (\<lambda>b12.
       bindh (slice_h (drop m) (take m) B) (\<lambda>b21. bindh (slice_h (drop m) (drop m) B) (\<lambda>b22.
       bindh (add_matrix_h a11 a22) (\<lambda>x1. bindh (add_matrix_h b11 b22) (\<lambda>y1.
       bindh (strassen_core_h d x1 y1 cutoff) (\<lambda>M1.
       bindh (add_matrix_h a21 a22) (\<lambda>x2.
       bindh (strassen_core_h d x2 b11 cutoff) (\<lambda>M2.
       bindh (sub_matrix_h b12 b22) (\<lambda>y3.
       bindh (strassen_core_h d a11 y3 cutoff) (\<lambda>M3.
       bindh (sub_matrix_h b21 b11) (\<lambda>y4.
       bindh (strassen_core_h d a22 y4 cutoff) (\<lambda>M4.
       bindh (add_matrix_h a11 a12) (\<lambda>x5.
       bindh (strassen_core_h d x5 b22 cutoff) (\<lambda>M5.
       bindh (sub_matrix_h a21 a11) (\<lambda>x6. bindh (add_matrix_h b11 b12) (\<lambda>y6.
       bindh (strassen_core_h d x6 y6 cutoff) (\<lambda>M6.
       bindh (sub_matrix_h a12 a22) (\<lambda>x7. bindh (add_matrix_h b21 b22) (\<lambda>y7.
       bindh (strassen_core_h d x7 y7 cutoff) (\<lambda>M7.
       bindh (add_matrix_h M1 M4) (\<lambda>t1. bindh (add_matrix_h t1 M7) (\<lambda>t2.
       bindh (sub_matrix_h t2 M5) (\<lambda>c11.
       bindh (add_matrix_h M3 M5) (\<lambda>c12.
       bindh (add_matrix_h M2 M4) (\<lambda>c21.
       bindh (add_matrix_h M1 M3) (\<lambda>t3. bindh (sub_matrix_h t3 M2) (\<lambda>t4.
       bindh (add_matrix_h t4 M6) (\<lambda>c22.
       join_h m c11 c12 c21 c22))))))))))))))))))))))))))))))))))"

definition pad_rows_h :: "nat \<Rightarrow> nat \<Rightarrow> nat \<Rightarrow> nat prog" where
  "pad_rows_h m n A =
     bindh (refs_of A) (\<lambda>rs.
     bindh (mapM_h (\<lambda>r. bindh (zeros_h (m - n)) (\<lambda>z. concat_h r z)) rs) (\<lambda>rows.
     alloc (Mat rows)))"

definition zero_rows_h :: "nat \<Rightarrow> nat \<Rightarrow> nat prog" where
  "zero_rows_h m k = bindh (mapM_h (\<lambda>_. zeros_h m) [0..<k]) (\<lambda>rows. alloc (Mat rows))"

definition pad_h :: "nat \<Rightarrow> nat \<Rightarrow> nat \<Rightarrow> nat prog" where
  "pad_h m n A =
     bindh (pad_rows_h m n A) (\<lambda>l1. bindh (zero_rows_h m (m - n)) (\<lambda>l2. concat_refs_h l1 l2))"

definition padded_h :: "(nat \<Rightarrow> nat \<Rightarrow> int \<Rightarrow> nat prog) \<Rightarrow> nat \<Rightarrow> nat \<Rightarrow> int \<Rightarrow> nat \<Rightarrow> nat prog" where
  "padded_h core A B cutoff n =
     (if and n (n - 1) \<noteq> 0 then
        let m = push_bit (bit_length (n - 1)) 1 in
        bindh (pad_h m n A) (\<lambda>Ap. bindh (pad_h m n B) (\<lambda>Bp.
        bindh (core Ap Bp cutoff) (\<lambda>Cp. slice_h (take n) (take n) Cp)))
      else core A B cutoff)"

definition asserted_h :: "nat \<Rightarrow> nat \<Rightarrow> (nat \<Rightarrow> nat prog) \<Rightarrow> nat prog" where
  "asserted_h A B run =
     bindh (len_h A) (\<lambda>n.
     if n = 0 then alloc (Mat [])
     else
       bindh (len_h B) (\<lambda>lb. if n \<noteq> lb then throw AssertionError else
       bindh (get_ref A 0) (\<lambda>a0. bindh (len_h a0) (\<lambda>la. if lb \<noteq> la then throw AssertionError else
       bindh (get_ref B 0) (\<lambda>b0. bindh (len_h b0) (\<lambda>lb0. if la \<noteq> lb0 then throw AssertionError else
       run n))))))"

definition checked_h :: "nat \<Rightarrow> nat \<Rightarrow> (nat \<Rightarrow> nat prog) \<Rightarrow> nat prog" where
  "checked_h A B run =
     bindh (len_h A) (\<lambda>n.
     if n = 0 then alloc (Mat [])
     else
       bindh (len_h B) (\<lambda>lb. if n \<noteq> lb then throw ValueError else
       bindh (get_ref A 0) (\<lambda>a0. bindh (len_h a0) (\<lambda>la. if n \<noteq> la then throw ValueError else
       bindh (get_ref B 0) (\<lambda>b0. bindh (len_h b0) (\<lambda>lb0. if n \<noteq> lb0 then throw ValueError else
       run n))))))"

definition matmul_strassen_h :: "nat \<Rightarrow> nat \<Rightarrow> nat \<Rightarrow> int \<Rightarrow> nat prog" where
  "matmul_strassen_h d A B cutoff =
     asserted_h A B (padded_h (strassen_core_bm_h d) A B cutoff)"

definition matmul_strassen_winograd_h :: "nat \<Rightarrow> nat \<Rightarrow> nat \<Rightarrow> int \<Rightarrow> nat prog" where
  "matmul_strassen_winograd_h d A B cutoff =
     asserted_h A B (padded_h (strassen_winograd_core_h d) A B cutoff)"

definition matmul_strassen_ans_h :: "nat \<Rightarrow> nat \<Rightarrow> nat \<Rightarrow> int \<Rightarrow> nat prog" where
  "matmul_strassen_ans_h d A B cutoff =
     checked_h A B (\<lambda>n. strassen_core_h d A B cutoff)"

lemma keeps_builders [simp]:
  "keeps (slice_h rsl csl A)" "keeps (add_matrix_h A B)" "keeps (sub_matrix_h A B)"
  "keeps (matmul_classic_h A B)" "keeps (join_h m a b c d)"
  by (simp_all add: builds_keeps)

lemma builds_strassen_core_bm_h: "builds (strassen_core_bm_h d A B c)"
proof (induction d arbitrary: A B)
  case 0
  show ?case by simp
next
  case (Suc d)
  note IH = Suc[THEN builds_keeps]
  show ?case
    apply (simp only: strassen_core_bm_h.simps Let_def)
    apply (intro builds_bindh builds_if)
    apply (simp_all add: IH)
    done
qed

lemma builds_strassen_winograd_core_h: "builds (strassen_winograd_core_h d A B c)"
proof (induction d arbitrary: A B)
  case 0
  show ?case by simp
next
  case (Suc d)
  note IH = Suc[THEN builds_keeps]
  show ?case
    apply (simp only: strassen_winograd_core_h.simps Let_def)
    apply (intro builds_bindh builds_if)
    apply (simp_all add: IH)
    done
qed

lemma builds_strassen_core_h: "builds (strassen_core_h d A B c)"
proof (induction d arbitrary: A B)
  case 0
  show ?case by simp
next
  case (Suc d)
  note IH = Suc[THEN builds_keeps]
  show ?case
    apply (simp only: strassen_core_h.simps Let_def)
    apply (intro builds_bindh builds_if)
    apply (simp_all add: IH)
    done
qed

lemma builds_pad_h [simp]: "builds (pad_h m n A)"
  unfolding pad_h_def
proof (rule builds_concat_refs)
  show "builds (pad_rows_h m n A)"
    unfolding pad_rows_h_def
    apply (rule builds_bindh, simp)
    apply (rule builds_rows_then_mat)
    apply (rule builds_rows_mapM_h)
    apply (rule builds_row_bindh)
     apply (simp add: builds_row_keeps)
    apply simp
    done
  show "builds (zero_rows_h m (m - n))" for top :: nat
    unfolding zero_rows_h_def
    by (rule builds_rows_then_mat, rule builds_rows_mapM_h) simp
qed

lemma builds_alloc_empty [simp]: "builds (alloc (Mat []))"
  by (simp add: builds_def alloc_def fresh_def)

lemma builds_padded_h:
  assumes "\<And>X Y. builds (core X Y c)"
  shows "builds (padded_h core A B c n)"
  unfolding padded_h_def Let_def
  by (intro builds_if builds_bindh) (simp_all add: assms builds_keeps)

lemma builds_checked_h:
  assumes "\<And>n. builds (run n)"
  shows "builds (checked_h A B run)"
  unfolding checked_h_def
  by (intro builds_bindh builds_if) (simp_all add: assms)

lemma builds_asserted_h:
  assumes "\<And>n. builds (run n)"
  shows "builds (asserted_h A B run)"
  unfolding asserted_h_def
  by (intro builds_bindh builds_if) (simp_all add: assms)

lemma builds_matmul_strassen_h: "builds (matmul_strassen_h d A B c)"
  unfolding matmul_strassen_h_def
  by (intro builds_asserted_h builds_padded_h builds_strassen_core_bm_h)

lemma builds_matmul_strassen_winograd_h: "builds (matmul_strassen_winograd_h d A B c)"
  unfolding matmul_strassen_winograd_h_def
  by (intro builds_asserted_h builds_padded_h builds_strassen_winograd_core_h)

lemma builds_matmul_strassen_ans_h: "builds (matmul_strassen_ans_h d A B c)"
  unfolding matmul_strassen_ans_h_def
  by (intro builds_checked_h builds_strassen_core_h)


definition stored :: "heap \<Rightarrow> nat \<Rightarrow> bool" where
  "stored h X \<longleftrightarrow> X < length h \<and> (\<exists>rs. h ! X = Mat rs \<and> (\<forall>r \<in> set rs. r < length h))"

lemma mval_prefix:
  assumes "prefix h h'" and "stored h X"
  shows "mval h' X = mval h X"
proof -
  from assms(1) obtain zs where h': "h' = h @ zs" by (auto simp add: prefix_def)
  from assms(2) obtain rs where X: "X < length h" "h ! X = Mat rs" "\<forall>r\<in>set rs. r < length h"
    by (auto simp add: stored_def)
  then show ?thesis
    by (simp add: mval_def h' nth_append)
qed

text \<open>
  Claim C9: no operation mutates its inputs.  For \<^verbatim>\<open>add_matrix\<close>, \<^verbatim>\<open>sub_matrix\<close>,
  \<^verbatim>\<open>matmul_classic\<close>, \<^verbatim>\<open>matmul_strassen\<close> (both files) and
  \<^verbatim>\<open>matmul_strassen_winograd\<close>, run from any heap \<open>h\<close> on any operands, with any
  cutoff and recursion limit, and whether the call returns or raises: the heap \<open>h\<close> is a
  prefix of the heap after the call, so every matrix stored in \<open>h\<close> (the operands among
  them) holds exactly the entries it held before; and a returned result is a list
  object created by the call whose rows were all created by the call.
\<close>

theorem operations_never_mutate_inputs:
  assumes "p \<in> {add_matrix_h A B, sub_matrix_h A B, matmul_classic_h A B,
                 matmul_strassen_h d A B cutoff, matmul_strassen_winograd_h d A B cutoff,
                 matmul_strassen_ans_h d A B cutoff}"
    and "p h = (r, h')"
  shows "prefix h h'
    \<and> (\<forall>X. stored h X \<longrightarrow> mval h' X = mval h X)
    \<and> (\<forall>C. r = Inr C \<longrightarrow> fresh (length h) h' C)"
proof -
  from assms(1) have "builds p"
    by (auto simp add: builds_matmul_strassen_h builds_matmul_strassen_winograd_h
        builds_matmul_strassen_ans_h)
  with assms(2) have "prefix h h'" and "\<forall>C. r = Inr C \<longrightarrow> fresh (length h) h' C"
    by (auto simp add: builds_def dest: spec[of _ h])
  then show ?thesis by (simp add: mval_prefix)
qed

lemma run_example:
  "fst (matmul_strassen_h 5 2 5 1
     [Row [1, 2], Row [3, 4], Mat [0, 1], Row [5, 6], Row [7, 8], Mat [3, 4]]) = Inr 91"
  "mval (snd (matmul_strassen_h 5 2 5 1
     [Row [1, 2], Row [3, 4], Mat [0, 1], Row [5, 6], Row [7, 8], Mat [3, 4]])) 91
     = [[19, 22], [43, 50]]"
  by code_simp+

theorem operations_never_mutate_inputs_witness:
  "stored [Row [1, 2], Row [3, 4], Mat [0, 1], Row [5, 6], Row [7, 8], Mat [3, 4]] 2
   \<and> stored [Row [1, 2], Row [3, 4], Mat [0, 1], Row [5, 6], Row [7, 8], Mat [3, 4]] 5
   \<and> fst (matmul_strassen_h 5 2 5 1
         [Row [1, 2], Row [3, 4], Mat [0, 1], Row [5, 6], Row [7, 8], Mat [3, 4]]) = Inr 91
   \<and> prefix [Row [1, 2], Row [3, 4], Mat [0, 1], Row [5, 6], Row [7, 8], Mat [3, 4]]
        (snd (matmul_strassen_h 5 2 5 1
           [Row [1, 2], Row [3, 4], Mat [0, 1], Row [5, 6], Row [7, 8], Mat [3, 4]]))
   \<and> mval (snd (matmul_strassen_h 5 2 5 1
           [Row [1, 2], Row [3, 4], Mat [0, 1], Row [5, 6], Row [7, 8], Mat [3, 4]])) 2
        = [[1, 2], [3, 4]]
   \<and> mval (snd (matmul_strassen_h 5 2 5 1
           [Row [1, 2], Row [3, 4], Mat [0, 1], Row [5, 6], Row [7, 8], Mat [3, 4]])) 5
        = [[5, 6], [7, 8]]
   \<and> fresh 6 (snd (matmul_strassen_h 5 2 5 1
           [Row [1, 2], Row [3, 4], Mat [0, 1], Row [5, 6], Row [7, 8], Mat [3, 4]])) 91
   \<and> mval (snd (matmul_strassen_h 5 2 5 1
           [Row [1, 2], Row [3, 4], Mat [0, 1], Row [5, 6], Row [7, 8], Mat [3, 4]])) 91
        = [[19, 22], [43, 50]]"
proof -
  let ?h = "[Row [1, 2], Row [3, 4], Mat [0, 1], Row [5, 6], Row [7, 8], Mat [3, 4]]"
  let ?p = "matmul_strassen_h 5 2 5 1"
  have mem: "?p \<in> {add_matrix_h 2 5, sub_matrix_h 2 5, matmul_classic_h 2 5,
                 matmul_strassen_h 5 2 5 1, matmul_strassen_winograd_h 5 2 5 1,
                 matmul_strassen_ans_h 5 2 5 1}" by simp
  have run: "?p ?h = (fst (?p ?h), snd (?p ?h))" by simp
  have st: "stored ?h 2" "stored ?h 5" by (simp_all add: stored_def)
  have vals: "mval ?h 2 = [[1, 2], [3, 4]]" "mval ?h 5 = [[5, 6], [7, 8]]"
    by (simp_all add: mval_def)
  have len: "length ?h = 6" by simp
  from operations_never_mutate_inputs[OF mem run]
  have pre: "prefix ?h (snd (?p ?h))"
    and keep: "\<forall>X. stored ?h X \<longrightarrow> mval (snd (?p ?h)) X = mval ?h X"
    and fr: "\<forall>C. fst (?p ?h) = Inr C \<longrightarrow> fresh (length ?h) (snd (?p ?h)) C"
    by blast+
  from fr run_example(1) have "fresh (length ?h) (snd (?p ?h)) 91" by blast
  then have f91: "fresh 6 (snd (?p ?h)) 91" by (simp only: len)
  from keep st vals have "mval (snd (?p ?h)) 2 = [[1, 2], [3, 4]]"
    "mval (snd (?p ?h)) 5 = [[5, 6], [7, 8]]" by simp_all
  with st pre f91 run_example show ?thesis by blast
qed


section \<open>Empty matrices\<close>

text \<open>
  Claim C8: when both inputs are the empty matrix, the classical product and every
  entry point return the empty matrix and raise nothing, whatever the cutoff is.
\<close>

theorem empty_inputs_return_empty:
  "matmul_classic [] [] = Inr []
   \<and> matmul_strassen [] [] cutoff = Inr []
   \<and> matmul_strassen_winograd [] [] cutoff = Inr []
   \<and> matmul_strassen_ans [] [] cutoff = Inr []"
  by (simp add: matmul_classic_def matmul_strassen_def matmul_strassen_winograd_def
      matmul_strassen_ans_def)

theorem empty_inputs_return_empty_witness:
  "matmul_classic [] [] = Inr []
   \<and> matmul_strassen [] [] 64 = Inr []
   \<and> matmul_strassen_winograd [] [] 64 = Inr []
   \<and> matmul_strassen_ans [] [] 64 = Inr []"
  by (rule empty_inputs_return_empty)

end
